theory Spec2Isabelle
  imports Complex_Main
begin

section \<open>The geometry core of kml\_area.py\<close>

text \<open>
  The three numerical functions of \<^verbatim>\<open>kml_area.py\<close> are embedded here:
  \<^verbatim>\<open>_unwrap_lons\<close>, \<^verbatim>\<open>spherical_polygon_area_sq_m\<close> and
  \<^verbatim>\<open>centroid_latlon\<close>. The program computes on Python's \<^verbatim>\<open>float\<close>, whose
  operations round. The embedding therefore takes the arithmetic as a parameter: a record
  of the float operations and of the functions of the \<^verbatim>\<open>math\<close> module that the code
  calls. What is proved for every such record holds for the program's own arithmetic.
  Two records are given below: exact real arithmetic, and binary64 arithmetic with
  round-to-nearest-even, infinities and NaN.

  A list access that Python would refuse with \<^verbatim>\<open>IndexError\<close>, a division by zero,
  and the \<^verbatim>\<open>ValueError\<close> that \<^verbatim>\<open>math.sin\<close> and \<^verbatim>\<open>math.cos\<close> raise on an
  infinite argument, are values of the error type.
\<close>

subsection \<open>Python primitives\<close>

datatype py_error = IndexError | ZeroDivisionError | ValueError

text \<open>Sequencing of fallible steps: the first error is the result.\<close>

definition py_bind :: "py_error + 'a \<Rightarrow> ('a \<Rightarrow> py_error + 'b) \<Rightarrow> py_error + 'b" where
  "py_bind m f = (case m of Inl e \<Rightarrow> Inl e | Inr v \<Rightarrow> f v)"

text \<open>\<^verbatim>\<open>xs[i]\<close>: an index from \<open>- len\<close> up to \<open>len - 1\<close> is served, the negative ones
  from the end; any other index is an \<^verbatim>\<open>IndexError\<close>.\<close>

definition py_get :: "'a list \<Rightarrow> int \<Rightarrow> py_error + 'a" where
  "py_get xs i =
     (if 0 \<le> i \<and> i < int (length xs) then Inr (xs ! nat i)
      else if i < 0 \<and> - int (length xs) \<le> i then Inr (xs ! nat (int (length xs) + i))
      else Inl IndexError)"

text \<open>\<^verbatim>\<open>range(a, b)\<close> and the \<^verbatim>\<open>for\<close> loop over it, threading the loop's variables.\<close>

definition py_range :: "nat \<Rightarrow> nat \<Rightarrow> nat list" where
  "py_range a b = [a..<b]"

fun for_loop :: "'i list \<Rightarrow> ('i \<Rightarrow> 's \<Rightarrow> py_error + 's) \<Rightarrow> 's \<Rightarrow> py_error + 's" where
  "for_loop [] body s = Inr s"
| "for_loop (i # is) body s =
     (case body i s of Inl e \<Rightarrow> Inl e | Inr s' \<Rightarrow> for_loop is body s')"

subsection \<open>Float arithmetic as a parameter\<close>

text \<open>
  \<open>flit\<close> is a numeric literal of the source read as a float, \<open>fof_nat\<close> the conversion
  of a length in \<^verbatim>\<open>x / n\<close>; \<open>fless a b\<close> is \<^verbatim>\<open>a < b\<close> and \<open>fdiffers a b\<close> is
  \<^verbatim>\<open>a != b\<close>; \<open>fpow\<close> is \<^verbatim>\<open>**\<close> with an integer exponent. The fields \<open>msin\<close> to
  \<open>mhypot\<close> are the functions of the \<^verbatim>\<open>math\<close> module, and \<open>mdomain_error\<close> tells the
  arguments on which \<^verbatim>\<open>math.sin\<close> and \<^verbatim>\<open>math.cos\<close> raise \<^verbatim>\<open>ValueError\<close>.
\<close>

record 'f float_ops =
  flit :: "real \<Rightarrow> 'f"
  fof_nat :: "nat \<Rightarrow> 'f"
  fadd :: "'f \<Rightarrow> 'f \<Rightarrow> 'f"
  fsub :: "'f \<Rightarrow> 'f \<Rightarrow> 'f"
  fmul :: "'f \<Rightarrow> 'f \<Rightarrow> 'f"
  fdiv :: "'f \<Rightarrow> 'f \<Rightarrow> 'f"
  fpow :: "'f \<Rightarrow> nat \<Rightarrow> 'f"
  fabs :: "'f \<Rightarrow> 'f"
  fless :: "'f \<Rightarrow> 'f \<Rightarrow> bool"
  fdiffers :: "'f \<Rightarrow> 'f \<Rightarrow> bool"
  msin :: "'f \<Rightarrow> 'f"
  mcos :: "'f \<Rightarrow> 'f"
  mradians :: "'f \<Rightarrow> 'f"
  mdegrees :: "'f \<Rightarrow> 'f"
  matan2 :: "'f \<Rightarrow> 'f \<Rightarrow> 'f"
  mhypot :: "'f \<Rightarrow> 'f \<Rightarrow> 'f"
  mdomain_error :: "'f \<Rightarrow> bool"

text \<open>\<^verbatim>\<open>math.sin(v)\<close> and \<^verbatim>\<open>math.cos(v)\<close>.\<close>

definition py_sin :: "'f float_ops \<Rightarrow> 'f \<Rightarrow> py_error + 'f" where
  "py_sin A v = (if mdomain_error A v then Inl ValueError else Inr (msin A v))"

definition py_cos :: "'f float_ops \<Rightarrow> 'f \<Rightarrow> py_error + 'f" where
  "py_cos A v = (if mdomain_error A v then Inl ValueError else Inr (mcos A v))"

text \<open>\<^verbatim>\<open>a / n\<close> with an integer length \<^verbatim>\<open>n\<close>.\<close>

definition py_div :: "'f float_ops \<Rightarrow> 'f \<Rightarrow> nat \<Rightarrow> py_error + 'f" where
  "py_div A a n = (if n = 0 then Inl ZeroDivisionError else Inr (fdiv A a (fof_nat A n)))"

subsection \<open>Constants\<close>

definition EARTH_RADIUS :: "'f float_ops \<Rightarrow> 'f" where
  "EARTH_RADIUS A = flit A (63710088 / 10)"

subsection \<open>\_unwrap\_lons\<close>

text \<open>
  The body of the loop of \<^verbatim>\<open>_unwrap_lons\<close>: the raw delta \<^verbatim>\<open>d\<close> between two input
  neighbours, and the value appended to \<^verbatim>\<open>unwrapped\<close>. \<^verbatim>\<open>d > 180\<close> is \<open>180 < d\<close>.
\<close>

definition unwrap_body :: "'f float_ops \<Rightarrow> 'f list \<Rightarrow> nat \<Rightarrow> 'f list \<Rightarrow> py_error + 'f list" where
  "unwrap_body A lons i unwrapped =
     py_bind (py_get lons (int i)) (\<lambda>a.
     py_bind (py_get lons (int i - 1)) (\<lambda>b.
     let d = fsub A a b in
     if fless A (flit A 180) d then
       py_bind (py_get unwrapped (- 1)) (\<lambda>l.
         Inr (unwrapped @ [fadd A l (fsub A d (flit A 360))]))
     else if fless A d (flit A (- 180)) then
       py_bind (py_get unwrapped (- 1)) (\<lambda>l.
         Inr (unwrapped @ [fadd A l (fadd A d (flit A 360))]))
     else
       py_bind (py_get unwrapped (- 1)) (\<lambda>l. Inr (unwrapped @ [fadd A l d]))))"

text \<open>The list comprehension that re-anchors the unwrapped values at \<^verbatim>\<open>lons[0]\<close>.\<close>

fun rebase :: "'f float_ops \<Rightarrow> 'f \<Rightarrow> 'f list \<Rightarrow> 'f list \<Rightarrow> py_error + 'f list" where
  "rebase A base unwrapped [] = Inr []"
| "rebase A base unwrapped (u # us) =
     py_bind (py_get unwrapped 0) (\<lambda>u0.
     py_bind (rebase A base unwrapped us) (\<lambda>rest.
       Inr (fadd A base (fsub A u u0) # rest)))"

definition unwrap_lons :: "'f float_ops \<Rightarrow> 'f list \<Rightarrow> py_error + 'f list" where
  "unwrap_lons A lons =
     py_bind (py_get lons 0) (\<lambda>l0.
     py_bind (for_loop (py_range 1 (length lons)) (unwrap_body A lons) [l0]) (\<lambda>unwrapped.
     py_bind (py_get lons 0) (\<lambda>base.
     rebase A base unwrapped unwrapped)))"

subsection \<open>spherical\_polygon\_area\_sq\_m\<close>

text \<open>
  Closing the ring. The test \<^verbatim>\<open>lats_deg[0] != lats_deg[-1] or lons_deg[0] != lons_deg[-1]\<close>
  reads the longitudes only when the latitudes agree.
\<close>

definition ring_open :: "'f float_ops \<Rightarrow> 'f list \<Rightarrow> 'f list \<Rightarrow> py_error + bool" where
  "ring_open A lats_deg lons_deg =
     py_bind (py_get lats_deg 0) (\<lambda>a.
     py_bind (py_get lats_deg (- 1)) (\<lambda>b.
     if fdiffers A a b then Inr True
     else
       py_bind (py_get lons_deg 0) (\<lambda>c.
       py_bind (py_get lons_deg (- 1)) (\<lambda>d. Inr (fdiffers A c d)))))"

definition close_ring :: "'f float_ops \<Rightarrow> 'f list \<Rightarrow> 'f list \<Rightarrow> py_error + ('f list \<times> 'f list)" where
  "close_ring A lats_deg lons_deg =
     py_bind (ring_open A lats_deg lons_deg) (\<lambda>opn.
     if opn then
       py_bind (py_get lats_deg 0) (\<lambda>a.
       py_bind (py_get lons_deg 0) (\<lambda>c. Inr (lats_deg @ [a], lons_deg @ [c])))
     else Inr (lats_deg, lons_deg))"

text \<open>The body of the summation loop: one edge of the ring, in radians
  (\<^verbatim>\<open>total\<close> is written \<open>total_acc\<close>: the name is taken in HOL).\<close>

definition area_body :: "'f float_ops \<Rightarrow> 'f list \<Rightarrow> 'f list \<Rightarrow> nat \<Rightarrow> 'f \<Rightarrow> py_error + 'f" where
  "area_body A lats lons i total_acc =
     py_bind (py_get lons (int i)) (\<lambda>lon1.
     py_bind (py_get lons (int i + 1)) (\<lambda>lon2.
     py_bind (py_get lats (int i)) (\<lambda>lat1.
     py_bind (py_get lats (int i + 1)) (\<lambda>lat2.
     py_bind (py_sin A lat1) (\<lambda>s1.
     py_bind (py_sin A lat2) (\<lambda>s2.
     Inr (fadd A total_acc (fmul A (fsub A lon2 lon1) (fadd A s1 s2)))))))))"

definition spherical_polygon_area_sq_m :: "'f float_ops \<Rightarrow> 'f list \<Rightarrow> 'f list \<Rightarrow> py_error + 'f" where
  "spherical_polygon_area_sq_m A lats_deg lons_deg =
     (if length lats_deg < 3 then Inr (flit A 0)
      else
        py_bind (close_ring A lats_deg lons_deg) (\<lambda>(lats_c, lons_c).
        py_bind (unwrap_lons A lons_c) (\<lambda>lons_u.
        let lats = map (mradians A) lats_c;
            lons = map (mradians A) lons_u
        in
        py_bind (for_loop (py_range 0 (length lats - 1)) (area_body A lats lons) (flit A 0))
          (\<lambda>total_acc.
        let area_on_unit_sphere = fmul A (flit A 0.5) (fabs A total_acc);
            area_sq_m = fmul A area_on_unit_sphere (fpow A (EARTH_RADIUS A) 2)
        in Inr area_sq_m))))"

subsection \<open>centroid\_latlon\<close>

text \<open>The body of the loop over \<^verbatim>\<open>zip(lats_deg, lons_deg)\<close>, on the three accumulators.\<close>

definition centroid_body ::
    "'f float_ops \<Rightarrow> 'f \<times> 'f \<Rightarrow> 'f \<times> 'f \<times> 'f \<Rightarrow> py_error + ('f \<times> 'f \<times> 'f)" where
  "centroid_body A p acc =
     (case (p, acc) of ((lat_deg, lon_deg), (x, y, z)) \<Rightarrow>
        let lat = mradians A lat_deg;
            lon = mradians A lon_deg
        in
        py_bind (py_cos A lat) (\<lambda>c1.
        py_bind (py_cos A lon) (\<lambda>c2.
        let x = fadd A x (fmul A c1 c2) in
        py_bind (py_cos A lat) (\<lambda>c3.
        py_bind (py_sin A lon) (\<lambda>s3.
        let y = fadd A y (fmul A c3 s3) in
        py_bind (py_sin A lat) (\<lambda>s4.
        let z = fadd A z s4 in
        Inr (x, y, z)))))))"

definition centroid_latlon :: "'f float_ops \<Rightarrow> 'f list \<Rightarrow> 'f list \<Rightarrow> py_error + ('f \<times> 'f)" where
  "centroid_latlon A lats_deg lons_deg =
     (if lats_deg = [] then Inr (flit A 0, flit A 0)
      else
        py_bind (for_loop (zip lats_deg lons_deg) (centroid_body A) (flit A 0, flit A 0, flit A 0))
          (\<lambda>(x, y, z).
        let n = length lats_deg in
        py_bind (py_div A x n) (\<lambda>x.
        py_bind (py_div A y n) (\<lambda>y.
        py_bind (py_div A z n) (\<lambda>z.
        let hyp = mhypot A x y;
            lat = mdegrees A (matan2 A z hyp);
            lon = mdegrees A (matan2 A y x)
        in Inr (lat, lon))))))"

section \<open>Two arithmetics\<close>

subsection \<open>Exact real arithmetic\<close>

text \<open>
  The arithmetic of the reals, where nothing rounds and nothing is infinite, so that
  \<^verbatim>\<open>math.sin\<close> and \<^verbatim>\<open>math.cos\<close> never raise.
\<close>

definition real_atan2 :: "real \<Rightarrow> real \<Rightarrow> real" where
  "real_atan2 y x =
     (if 0 < x then arctan (y / x)
      else if x < 0 then (if 0 \<le> y then arctan (y / x) + pi else arctan (y / x) - pi)
      else if 0 < y then pi / 2
      else if y < 0 then - (pi / 2)
      else 0)"

definition real_ops :: "real float_ops" where
  "real_ops =
     \<lparr> flit = (\<lambda>r. r), fof_nat = real,
       fadd = (+), fsub = (-), fmul = (*), fdiv = (/), fpow = (^), fabs = abs,
       fless = (<), fdiffers = (\<noteq>),
       msin = sin, mcos = cos,
       mradians = (\<lambda>x. x * (pi / 180)), mdegrees = (\<lambda>x. x * (180 / pi)),
       matan2 = real_atan2, mhypot = (\<lambda>x y. sqrt (x * x + y * y)),
       mdomain_error = (\<lambda>x. False) \<rparr>"

subsection \<open>Binary64 arithmetic\<close>

text \<open>
  A float is a finite value, an infinity or NaN; the two zeros are not told apart. A real
  number is rounded to the nearest value with a 53-bit significand, a tie going to the even
  significand (\<open>rne\<close>); below \<open>2^-1022\<close> the spacing stays \<open>2^-1074\<close>, and a rounded
  magnitude of \<open>2^1024\<close> or more is an infinity.
\<close>

datatype fl = Fin real | PInf | NInf | NaN

definition pow2 :: "int \<Rightarrow> real" where
  "pow2 e = (if 0 \<le> e then 2 ^ nat e else 1 / 2 ^ nat (- e))"

definition rne :: "real \<Rightarrow> int" where
  "rne q =
     (let f = \<lfloor>q\<rfloor>; r = q - of_int f
      in if r < 1 / 2 then f else if 1 / 2 < r then f + 1 else if even f then f else f + 1)"

definition expo :: "real \<Rightarrow> int" where
  "expo x = max \<lfloor>log 2 \<bar>x\<bar>\<rfloor> (- 1022)"

definition round64 :: "real \<Rightarrow> real" where
  "round64 x =
     (if x = 0 then 0 else of_int (rne (x / pow2 (expo x - 52))) * pow2 (expo x - 52))"

definition fl_of :: "real \<Rightarrow> fl" where
  "fl_of x =
     (let y = round64 x
      in if 2 ^ 1024 \<le> y then PInf else if y \<le> - (2 ^ 1024) then NInf else Fin y)"

fun fl_neg :: "fl \<Rightarrow> fl" where
  "fl_neg (Fin x) = Fin (- x)"
| "fl_neg PInf = NInf"
| "fl_neg NInf = PInf"
| "fl_neg NaN = NaN"

fun fl_add :: "fl \<Rightarrow> fl \<Rightarrow> fl" where
  "fl_add NaN b = NaN"
| "fl_add a NaN = NaN"
| "fl_add PInf NInf = NaN"
| "fl_add NInf PInf = NaN"
| "fl_add PInf b = PInf"
| "fl_add a PInf = PInf"
| "fl_add NInf b = NInf"
| "fl_add a NInf = NInf"
| "fl_add (Fin x) (Fin y) = fl_of (x + y)"

definition fl_sub :: "fl \<Rightarrow> fl \<Rightarrow> fl" where
  "fl_sub a b = fl_add a (fl_neg b)"

text \<open>The sign of a product or quotient with an infinity; a zero factor gives NaN.\<close>

definition signed_inf :: "bool \<Rightarrow> fl" where
  "signed_inf positive = (if positive then PInf else NInf)"

fun fl_mul :: "fl \<Rightarrow> fl \<Rightarrow> fl" where
  "fl_mul NaN b = NaN"
| "fl_mul a NaN = NaN"
| "fl_mul PInf PInf = PInf"
| "fl_mul PInf NInf = NInf"
| "fl_mul NInf PInf = NInf"
| "fl_mul NInf NInf = PInf"
| "fl_mul PInf (Fin y) = (if y = 0 then NaN else signed_inf (0 < y))"
| "fl_mul NInf (Fin y) = (if y = 0 then NaN else signed_inf (y < 0))"
| "fl_mul (Fin x) PInf = (if x = 0 then NaN else signed_inf (0 < x))"
| "fl_mul (Fin x) NInf = (if x = 0 then NaN else signed_inf (x < 0))"
| "fl_mul (Fin x) (Fin y) = fl_of (x * y)"

text \<open>
  Division. The program divides by a length of at least 1 only (a zero divisor is refused
  before, in \<open>py_div\<close>), so the quotient by zero is left as NaN.
\<close>

fun fl_div :: "fl \<Rightarrow> fl \<Rightarrow> fl" where
  "fl_div NaN b = NaN"
| "fl_div a NaN = NaN"
| "fl_div PInf (Fin y) = (if y = 0 then NaN else signed_inf (0 < y))"
| "fl_div NInf (Fin y) = (if y = 0 then NaN else signed_inf (y < 0))"
| "fl_div (Fin x) (Fin y) = (if y = 0 then NaN else fl_of (x / y))"
| "fl_div (Fin x) b = Fin 0"
| "fl_div a b = NaN"

fun fl_abs :: "fl \<Rightarrow> fl" where
  "fl_abs (Fin x) = Fin \<bar>x\<bar>"
| "fl_abs PInf = PInf"
| "fl_abs NInf = PInf"
| "fl_abs NaN = NaN"

fun fl_less :: "fl \<Rightarrow> fl \<Rightarrow> bool" where
  "fl_less NaN b = False"
| "fl_less a NaN = False"
| "fl_less (Fin x) (Fin y) = (x < y)"
| "fl_less a PInf = (a \<noteq> PInf)"
| "fl_less NInf b = (b \<noteq> NInf)"
| "fl_less a b = False"

text \<open>\<^verbatim>\<open>a != b\<close>: NaN differs from everything, itself included.\<close>

definition fl_differs :: "fl \<Rightarrow> fl \<Rightarrow> bool" where
  "fl_differs a b = (a = NaN \<or> b = NaN \<or> a \<noteq> b)"

text \<open>
  The functions \<^verbatim>\<open>sin\<close>, \<^verbatim>\<open>cos\<close>, \<^verbatim>\<open>atan2\<close> and \<^verbatim>\<open>hypot\<close> of the
  \<^verbatim>\<open>math\<close> module, and \<^verbatim>\<open>**\<close>, are taken as correctly rounded on finite
  arguments; the statements below evaluate them at 0 only. \<^verbatim>\<open>math.sin\<close> and
  \<^verbatim>\<open>math.cos\<close> raise on the infinities and pass NaN on.
\<close>

definition fl_is_inf :: "fl \<Rightarrow> bool" where
  "fl_is_inf a = (a = PInf \<or> a = NInf)"

definition fl_fun :: "(real \<Rightarrow> real) \<Rightarrow> fl \<Rightarrow> fl" where
  "fl_fun f a = (case a of Fin x \<Rightarrow> fl_of (f x) | PInf \<Rightarrow> NaN | NInf \<Rightarrow> NaN | NaN \<Rightarrow> NaN)"

text \<open>
  \<^verbatim>\<open>math.radians(x)\<close> is \<open>x * (pi / 180.0)\<close> and \<^verbatim>\<open>math.degrees(x)\<close> is
  \<open>x * (180.0 / pi)\<close>, with \<open>pi\<close> the float nearest to the number and the two factors
  computed once, in float arithmetic.
\<close>

definition deg_to_rad :: fl where
  "deg_to_rad = fl_div (fl_of pi) (Fin 180)"

definition rad_to_deg :: fl where
  "rad_to_deg = fl_div (Fin 180) (fl_of pi)"

definition fl_radians :: "fl \<Rightarrow> fl" where
  "fl_radians a = fl_mul a deg_to_rad"

definition fl_degrees :: "fl \<Rightarrow> fl" where
  "fl_degrees a = fl_mul a rad_to_deg"

definition fl_pow :: "fl \<Rightarrow> nat \<Rightarrow> fl" where
  "fl_pow a n =
     (if n = 0 then Fin 1
      else case a of Fin x \<Rightarrow> fl_of (x ^ n) | PInf \<Rightarrow> PInf
        | NInf \<Rightarrow> (if even n then PInf else NInf) | NaN \<Rightarrow> NaN)"

definition fl_hypot :: "fl \<Rightarrow> fl \<Rightarrow> fl" where
  "fl_hypot a b =
     (if fl_is_inf a \<or> fl_is_inf b then PInf
      else case (a, b) of (Fin x, Fin y) \<Rightarrow> fl_of (sqrt (x * x + y * y)) | _ \<Rightarrow> NaN)"

definition fl_atan2 :: "fl \<Rightarrow> fl \<Rightarrow> fl" where
  "fl_atan2 a b =
     (case (a, b) of
        (NaN, _) \<Rightarrow> NaN
      | (_, NaN) \<Rightarrow> NaN
      | (Fin y, Fin x) \<Rightarrow> fl_of (real_atan2 y x)
      | (Fin y, PInf) \<Rightarrow> Fin 0
      | (Fin y, NInf) \<Rightarrow> fl_of (if 0 \<le> y then pi else - pi)
      | (PInf, Fin x) \<Rightarrow> fl_of (pi / 2)
      | (NInf, Fin x) \<Rightarrow> fl_of (- (pi / 2))
      | (PInf, PInf) \<Rightarrow> fl_of (pi / 4)
      | (NInf, PInf) \<Rightarrow> fl_of (- (pi / 4))
      | (PInf, NInf) \<Rightarrow> fl_of (3 * pi / 4)
      | (NInf, NInf) \<Rightarrow> fl_of (- (3 * pi / 4)))"

definition ieee_ops :: "fl float_ops" where
  "ieee_ops =
     \<lparr> flit = fl_of, fof_nat = (\<lambda>n. fl_of (real n)),
       fadd = fl_add, fsub = fl_sub, fmul = fl_mul, fdiv = fl_div, fpow = fl_pow,
       fabs = fl_abs, fless = fl_less, fdiffers = fl_differs,
       msin = fl_fun sin, mcos = fl_fun cos,
       mradians = fl_radians, mdegrees = fl_degrees,
       matan2 = fl_atan2, mhypot = fl_hypot,
       mdomain_error = fl_is_inf \<rparr>"

section \<open>Definitions used to state the properties\<close>

subsection \<open>What the Longitude Normalizer returns\<close>

text \<open>
  The adjustment of a raw delta: 360 is subtracted when the delta exceeds +180 and added
  when it is below -180.
\<close>

definition wrap_delta :: "'f float_ops \<Rightarrow> 'f \<Rightarrow> 'f" where
  "wrap_delta A d =
     (if fless A (flit A 180) d then fsub A d (flit A 360)
      else if fless A d (flit A (- 180)) then fadd A d (flit A 360)
      else d)"

text \<open>
  The running values: the first is the first input, each later one is the previous running
  value plus the adjusted delta between the corresponding input neighbours.
\<close>

fun unwrap_from :: "'f float_ops \<Rightarrow> 'f \<Rightarrow> 'f \<Rightarrow> 'f list \<Rightarrow> 'f list" where
  "unwrap_from A prev_in prev_out [] = []"
| "unwrap_from A prev_in prev_out (x # xs) =
     fadd A prev_out (wrap_delta A (fsub A x prev_in))
       # unwrap_from A x (fadd A prev_out (wrap_delta A (fsub A x prev_in))) xs"

fun running :: "'f float_ops \<Rightarrow> 'f list \<Rightarrow> 'f list" where
  "running A [] = []"
| "running A (x # xs) = x # unwrap_from A x x xs"

text \<open>The output: every running value \<open>u\<close> re-anchored as \<open>lons[0] + (u - lons[0])\<close>.\<close>

definition normalizer :: "'f float_ops \<Rightarrow> 'f list \<Rightarrow> 'f list" where
  "normalizer A lons = map (\<lambda>u. fadd A (hd lons) (fsub A u (hd lons))) (running A lons)"

subsection \<open>The closed ring and the signed total of the summation loop\<close>

text \<open>
  The ring after the closing step, and the total that the loop accumulates over its edges,
  with the two sines added in the order of the source.
\<close>

definition closed_ring :: "'f float_ops \<Rightarrow> 'f list \<Rightarrow> 'f list \<Rightarrow> 'f list \<times> 'f list" where
  "closed_ring A lats_deg lons_deg =
     (if fdiffers A (hd lats_deg) (last lats_deg) \<or> fdiffers A (hd lons_deg) (last lons_deg)
      then (lats_deg @ [hd lats_deg], lons_deg @ [hd lons_deg])
      else (lats_deg, lons_deg))"

definition edge_total :: "'f float_ops \<Rightarrow> 'f list \<Rightarrow> 'f list \<Rightarrow> 'f" where
  "edge_total A lats lons =
     foldl (\<lambda>t i. fadd A t
              (fmul A (fsub A (lons ! Suc i) (lons ! i))
                      (fadd A (msin A (lats ! i)) (msin A (lats ! Suc i)))))
       (flit A 0) [0..<length lats - 1]"

subsection \<open>The area as the specification words it\<close>

text \<open>
  The ring is closed by appending the first point when first and last point differ, its
  longitudes are unwrapped, everything is converted to radians, and the area is 0.5 times
  the absolute value of the sum over consecutive vertex pairs of
  \<open>(lon[i+1] - lon[i]) * (sin(lat[i+1]) + sin(lat[i]))\<close>, times the square of the
  mean Earth radius 6371008.8 m. The sum starts from 0.0 and takes the pairs in order.
\<close>

definition area_spec :: "'f float_ops \<Rightarrow> 'f list \<Rightarrow> 'f list \<Rightarrow> 'f" where
  "area_spec A lats_deg lons_deg =
     (let opn = (fdiffers A (hd lats_deg) (last lats_deg) \<or> fdiffers A (hd lons_deg) (last lons_deg));
          lat = map (mradians A) (if opn then lats_deg @ [hd lats_deg] else lats_deg);
          lon = map (mradians A) (normalizer A (if opn then lons_deg @ [hd lons_deg] else lons_deg));
          edge_sum = foldl (\<lambda>t i. fadd A t
                        (fmul A (fsub A (lon ! (i + 1)) (lon ! i))
                                (fadd A (msin A (lat ! (i + 1))) (msin A (lat ! i)))))
                      (flit A 0) [0..<length lat - 1]
      in fmul A (fmul A (flit A 0.5) (fabs A edge_sum)) (fpow A (flit A 6371008.8) 2))"

subsection \<open>The centroid as the specification words it\<close>

text \<open>
  Every vertex becomes the unit vector \<open>(cos lat cos lon, cos lat sin lon, sin lat)\<close>; the
  three coordinates are summed over all vertices as given, starting from 0.0, and divided
  by the number of vertices; the mean vector is converted back to degrees.
\<close>

definition centroid_spec :: "'f float_ops \<Rightarrow> 'f list \<Rightarrow> 'f list \<Rightarrow> 'f \<times> 'f" where
  "centroid_spec A lats_deg lons_deg =
     (let n = length lats_deg;
          lat = (\<lambda>i. mradians A (lats_deg ! i));
          lon = (\<lambda>i. mradians A (lons_deg ! i));
          x = fdiv A (foldl (\<lambda>t i. fadd A t (fmul A (mcos A (lat i)) (mcos A (lon i))))
                       (flit A 0) [0..<n]) (fof_nat A n);
          y = fdiv A (foldl (\<lambda>t i. fadd A t (fmul A (mcos A (lat i)) (msin A (lon i))))
                       (flit A 0) [0..<n]) (fof_nat A n);
          z = fdiv A (foldl (\<lambda>t i. fadd A t (msin A (lat i))) (flit A 0) [0..<n]) (fof_nat A n)
      in (mdegrees A (matan2 A z (mhypot A x y)), mdegrees A (matan2 A y x)))"

subsection \<open>The closed ring as a list of points, in exact real arithmetic\<close>

text \<open>
  For the reversal of a ring, in exact arithmetic, the closed ring is read as a list of
  (lat, lon) points. An edge contributes the adjusted longitude delta, in radians, times
  the sum of the sines of its two latitudes.
\<close>

definition edge_term :: "real \<times> real \<Rightarrow> real \<times> real \<Rightarrow> real" where
  "edge_term p q =
     (wrap_delta real_ops (snd q - snd p) * (pi / 180))
       * (sin (fst p * (pi / 180)) + sin (fst q * (pi / 180)))"

fun edge_sum :: "(real \<times> real) list \<Rightarrow> real" where
  "edge_sum (p # q # ps) = edge_term p q + edge_sum (q # ps)"
| "edge_sum ps = 0"


section \<open>Properties\<close>

subsection \<open>Sequencing and list accesses that succeed\<close>

lemma py_bind_Inr [simp]: "py_bind (Inr v) f = f v"
  by (simp add: py_bind_def)

lemma py_bind_Inl [simp]: "py_bind (Inl e) f = Inl e"
  by (simp add: py_bind_def)

lemma py_get_nat: "i < length xs \<Longrightarrow> py_get xs (int i) = Inr (xs ! i)"
  by (simp add: py_get_def)

lemma py_get_zero: "xs \<noteq> [] \<Longrightarrow> py_get xs 0 = Inr (hd xs)"
  by (cases xs) (simp_all add: py_get_def)

lemma py_get_last: "xs \<noteq> [] \<Longrightarrow> py_get xs (- 1) = Inr (last xs)"
proof -
  assume ne: "xs \<noteq> []"
  then have "nat (int (length xs) + (- 1)) = length xs - 1"
    by (cases xs) simp_all
  with ne show ?thesis
    by (cases xs) (simp_all add: py_get_def last_conv_nth)
qed

lemma py_get_pred: "0 < i \<Longrightarrow> i \<le> length xs \<Longrightarrow> py_get xs (int i - 1) = Inr (xs ! (i - 1))"
  using py_get_nat [of "i - 1" xs] by (simp add: of_nat_diff)

lemma py_get_succ: "Suc i < length xs \<Longrightarrow> py_get xs (int i + 1) = Inr (xs ! Suc i)"
  using py_get_nat [of "Suc i" xs] by (simp add: add.commute)

lemma py_get_empty: "py_get [] i = Inl IndexError"
  by (simp add: py_get_def)

subsection \<open>The loop of \_unwrap\_lons in any arithmetic\<close>

lemma unwrap_body_step:
  assumes "0 < i" "i < length lons" "acc \<noteq> []"
  shows "unwrap_body A lons i acc
           = Inr (acc @ [fadd A (last acc) (wrap_delta A (fsub A (lons ! i) (lons ! (i - 1))))])"
  using assms
  by (simp add: unwrap_body_def py_get_nat py_get_pred py_get_last wrap_delta_def Let_def)

lemma unwrap_loop:
  assumes "xs \<noteq> []" "acc \<noteq> []"
  shows "for_loop [length xs..<length xs + length ys] (unwrap_body A (xs @ ys)) acc
           = Inr (acc @ unwrap_from A (last xs) (last acc) ys)"
  using assms
proof (induction ys arbitrary: xs acc)
  case Nil
  then show ?case by simp
next
  case (Cons y ys)
  let ?u = "fadd A (last acc) (wrap_delta A (fsub A y (last xs)))"
  have step: "unwrap_body A (xs @ y # ys) (length xs) acc = Inr (acc @ [?u])"
    using Cons.prems
    by (simp add: unwrap_body_step nth_append last_conv_nth)
  have ih: "for_loop [length (xs @ [y])..<length (xs @ [y]) + length ys]
              (unwrap_body A ((xs @ [y]) @ ys)) (acc @ [?u])
            = Inr ((acc @ [?u]) @ unwrap_from A (last (xs @ [y])) (last (acc @ [?u])) ys)"
    by (rule Cons.IH) simp_all
  have rng: "[length xs..<length xs + length (y # ys)]
          = length xs # [Suc (length xs)..<Suc (length xs) + length ys]"
    by (simp add: upt_conv_Cons del: upt_Suc)
  show ?case
    unfolding rng using step ih by (simp del: upt_Suc)
qed

lemma rebase_map:
  "unwrapped \<noteq> [] \<Longrightarrow>
   rebase A base unwrapped us = Inr (map (\<lambda>u. fadd A base (fsub A u (hd unwrapped))) us)"
  by (induction us) (simp_all add: py_get_zero)

lemma unwrap_lons_value: "lons \<noteq> [] \<Longrightarrow> unwrap_lons A lons = Inr (normalizer A lons)"
proof (cases lons)
  case Nil
  assume "lons \<noteq> []"
  with Nil show ?thesis by simp
next
  case (Cons x xs)
  have r: "py_range 1 (length lons) = [length [x]..<length [x] + length xs]"
    by (simp add: py_range_def Cons)
  have l: "lons = [x] @ xs"
    by (simp add: Cons)
  have e: "x # unwrap_from A x x xs = [x] @ unwrap_from A (last [x]) (last [x]) xs"
    by simp
  have loop: "for_loop (py_range 1 (length lons)) (unwrap_body A lons) [x]
          = Inr (x # unwrap_from A x x xs)"
    unfolding r unfolding e l by (rule unwrap_loop) simp_all
  show ?thesis
    using Cons loop by (simp add: unwrap_lons_def py_get_zero rebase_map normalizer_def)
qed

lemma unwrap_lons_empty: "unwrap_lons A [] = Inl IndexError"
  by (simp add: unwrap_lons_def py_get_empty)

lemma length_unwrap_from: "length (unwrap_from A a b xs) = length xs"
  by (induction xs arbitrary: a b) simp_all

lemma length_running: "length (running A xs) = length xs"
  by (cases xs) (simp_all add: length_unwrap_from)

lemma length_normalizer: "length (normalizer A xs) = length xs"
  by (simp add: normalizer_def length_running)

lemma unwrap_from_nth_0:
  "xs \<noteq> [] \<Longrightarrow> unwrap_from A a b xs ! 0 = fadd A b (wrap_delta A (fsub A (xs ! 0) a))"
  by (cases xs) simp_all

lemma unwrap_from_nth_Suc:
  "Suc i < length xs \<Longrightarrow>
   unwrap_from A a b xs ! Suc i
     = fadd A (unwrap_from A a b xs ! i) (wrap_delta A (fsub A (xs ! Suc i) (xs ! i)))"
proof (induction xs arbitrary: a b i)
  case Nil
  then show ?case by simp
next
  case (Cons x xs)
  show ?case
  proof (cases i)
    case 0
    with Cons.prems show ?thesis
      by (simp add: unwrap_from_nth_0)
  next
    case (Suc j)
    with Cons.prems have "Suc j < length xs" by simp
    then show ?thesis
      using Suc by (simp add: Cons.IH)
  qed
qed

lemma running_nth_0: "xs \<noteq> [] \<Longrightarrow> running A xs ! 0 = xs ! 0"
  by (cases xs) simp_all

lemma running_nth_Suc:
  "Suc i < length xs \<Longrightarrow>
   running A xs ! Suc i = fadd A (running A xs ! i) (wrap_delta A (fsub A (xs ! Suc i) (xs ! i)))"
proof (cases xs)
  case Nil
  assume "Suc i < length xs"
  with Nil show ?thesis by simp
next
  case (Cons x ys)
  assume b: "Suc i < length xs"
  show ?thesis
  proof (cases i)
    case 0
    with b Cons show ?thesis by (simp add: unwrap_from_nth_0)
  next
    case (Suc j)
    with b Cons have "Suc j < length ys" by simp
    then show ?thesis
      using Suc Cons by (simp add: unwrap_from_nth_Suc)
  qed
qed

lemma normalizer_nth:
  "i < length xs \<Longrightarrow> normalizer A xs ! i = fadd A (xs ! 0) (fsub A (running A xs ! i) (xs ! 0))"
proof -
  assume i: "i < length xs"
  then have "xs \<noteq> []" by auto
  then have "hd xs = xs ! 0" by (rule hd_conv_nth)
  then show ?thesis
    using i by (simp add: normalizer_def length_running del: running.simps)
qed

text \<open>
  C2, amended: for a longitude sequence of length at least 1, in any float arithmetic,
  \<^verbatim>\<open>_unwrap_lons\<close> returns a sequence \<open>out\<close> of the same length with
  \<open>out[i] = lons[0] + (u[i] - lons[0])\<close>, where the running values are \<open>u[0] = lons[0]\<close>
  and \<open>u[i] = u[i-1] + d'\<close>, \<open>d'\<close> being the raw delta \<open>lons[i] - lons[i-1]\<close>, less 360
  when it exceeds +180 and plus 360 when it is below -180. The first output equals the
  first input, and a sequence of length 1 comes back unchanged, whenever
  \<open>lons[0] + (lons[0] - lons[0])\<close> is \<open>lons[0]\<close>, as it is for every finite float.
\<close>

theorem unwrap_lons_contract:
  assumes "lons \<noteq> []"
  shows "\<exists>out u. unwrap_lons A lons = Inr out \<and> length out = length lons \<and>
           length u = length lons \<and> u ! 0 = lons ! 0 \<and>
           (\<forall>i. 0 < i \<and> i < length lons \<longrightarrow>
              u ! i = fadd A (u ! (i - 1))
                (let d = fsub A (lons ! i) (lons ! (i - 1))
                 in if fless A (flit A 180) d then fsub A d (flit A 360)
                    else if fless A d (flit A (- 180)) then fadd A d (flit A 360)
                    else d)) \<and>
           (\<forall>i. i < length lons \<longrightarrow> out ! i = fadd A (lons ! 0) (fsub A (u ! i) (lons ! 0))) \<and>
           (fadd A (lons ! 0) (fsub A (lons ! 0) (lons ! 0)) = lons ! 0 \<longrightarrow>
              out ! 0 = lons ! 0 \<and> (length lons = 1 \<longrightarrow> out = lons))"
proof -
  let ?out = "normalizer A lons" and ?u = "running A lons"
  have 1: "unwrap_lons A lons = Inr ?out"
    using assms by (rule unwrap_lons_value)
  have 2: "length ?out = length lons" "length ?u = length lons"
    by (simp_all add: length_normalizer length_running)
  have 3: "?u ! 0 = lons ! 0"
    using assms by (rule running_nth_0)
  have 4: "?u ! i = fadd A (?u ! (i - 1))
             (let d = fsub A (lons ! i) (lons ! (i - 1))
              in if fless A (flit A 180) d then fsub A d (flit A 360)
                 else if fless A d (flit A (- 180)) then fadd A d (flit A 360)
                 else d)"
    if "0 < i \<and> i < length lons" for i
  proof -
    from that obtain j where j: "i = Suc j" by (cases i) auto
    with that have "Suc j < length lons" by simp
    then have "?u ! Suc j = fadd A (?u ! j) (wrap_delta A (fsub A (lons ! Suc j) (lons ! j)))"
      by (rule running_nth_Suc)
    then show ?thesis
      using j by (simp add: wrap_delta_def Let_def)
  qed
  have 5: "?out ! i = fadd A (lons ! 0) (fsub A (?u ! i) (lons ! 0))" if "i < length lons" for i
    using that by (rule normalizer_nth)
  have 6: "?out ! 0 = lons ! 0 \<and> (length lons = 1 \<longrightarrow> ?out = lons)"
    if h: "fadd A (lons ! 0) (fsub A (lons ! 0) (lons ! 0)) = lons ! 0"
  proof
    have "0 < length lons" using assms by simp
    then have "?out ! 0 = fadd A (lons ! 0) (fsub A (?u ! 0) (lons ! 0))"
      by (rule normalizer_nth)
    then show o: "?out ! 0 = lons ! 0"
      using 3 h by simp
    show "length lons = 1 \<longrightarrow> ?out = lons"
    proof
      assume "length lons = 1"
      then obtain x where x: "lons = [x]"
        by (cases lons) auto
      then show "?out = lons"
        using h by (simp add: normalizer_def)
    qed
  qed
  from 1 2 3 4 5 6 show ?thesis by blast
qed

subsection \<open>The Longitude Normalizer in exact real arithmetic\<close>

lemma real_ops_fields [simp]:
  "flit real_ops = (\<lambda>r. r)" "fof_nat real_ops = real"
  "fadd real_ops = (+)" "fsub real_ops = (-)" "fmul real_ops = (*)" "fdiv real_ops = (/)"
  "fpow real_ops = (^)" "fabs real_ops = abs" "fless real_ops = (<)" "fdiffers real_ops = (\<noteq>)"
  "msin real_ops = sin" "mcos real_ops = cos"
  "mradians real_ops = (\<lambda>x. x * (pi / 180))" "mdegrees real_ops = (\<lambda>x. x * (180 / pi))"
  "matan2 real_ops = real_atan2" "mhypot real_ops = (\<lambda>x y. sqrt (x * x + y * y))"
  "mdomain_error real_ops = (\<lambda>x. False)"
  by (simp_all add: real_ops_def)

lemma wrap_delta_real:
  "wrap_delta real_ops d = (if 180 < d then d - 360 else if d < - 180 then d + 360 else d)"
  by (simp add: wrap_delta_def)

lemma normalizer_real: "normalizer real_ops xs = running real_ops xs"
  by (simp add: normalizer_def del: running.simps)

lemma wrap_delta_real_cases:
  "wrap_delta real_ops d = d \<or> wrap_delta real_ops d = d - 360 \<or> wrap_delta real_ops d = d + 360"
  by (simp add: wrap_delta_real)



lemma running_real_nth_Suc:
  "Suc i < length xs \<Longrightarrow>
   running real_ops xs ! Suc i = running real_ops xs ! i + wrap_delta real_ops (xs ! Suc i - xs ! i)"
  using running_nth_Suc [of i xs real_ops] by simp



lemma running_real_mod_360:
  "i < length xs \<Longrightarrow> \<exists>k :: int. running real_ops xs ! i - xs ! i = 360 * real_of_int k"
proof (induction i)
  case 0
  then have "running real_ops xs ! 0 - xs ! 0 = 360 * real_of_int 0"
    by (simp add: running_nth_0)
  then show ?case by blast
next
  case (Suc i)
  then obtain k :: int where k: "running real_ops xs ! i - xs ! i = 360 * real_of_int k"
    by auto
  let ?d = "xs ! Suc i - xs ! i"
  have s: "running real_ops xs ! Suc i = running real_ops xs ! i + wrap_delta real_ops ?d"
    using Suc.prems by (rule running_real_nth_Suc)
  consider "wrap_delta real_ops ?d = ?d" | "wrap_delta real_ops ?d = ?d - 360"
    | "wrap_delta real_ops ?d = ?d + 360"
    using wrap_delta_real_cases by blast
  then show ?case
  proof cases
    case 1
    with s k have "running real_ops xs ! Suc i - xs ! Suc i = 360 * real_of_int k" by simp
    then show ?thesis by blast
  next
    case 2
    with s k have "running real_ops xs ! Suc i - xs ! Suc i = 360 * real_of_int (k - 1)" by simp
    then show ?thesis by blast
  next
    case 3
    with s k have "running real_ops xs ! Suc i - xs ! Suc i = 360 * real_of_int (k + 1)" by simp
    then show ?thesis by blast
  qed
qed

lemma unwrap_lons_real: "lons \<noteq> [] \<Longrightarrow> unwrap_lons real_ops lons = Inr (running real_ops lons)"
  by (simp add: unwrap_lons_value normalizer_real del: running.simps)

text \<open>
  C10: for a non-empty longitude sequence and every index \<open>i\<close>, the \<open>i\<close>-th output of
  \<^verbatim>\<open>_unwrap_lons\<close> differs from the \<open>i\<close>-th input by an integer multiple of 360
  degrees, in exact real arithmetic.
\<close>

theorem unwrap_lons_mod_360:
  assumes "lons \<noteq> []" and "i < length lons"
  shows "\<exists>out. unwrap_lons real_ops lons = Inr out \<and>
           (\<exists>k :: int. out ! i - lons ! i = 360 * real_of_int k)"
  using assms by (simp add: unwrap_lons_real running_real_mod_360 del: running.simps)

text \<open>At the dateline crossing 170, -170 the second output is 190 = -170 + 360.\<close>

theorem unwrap_lons_mod_360_witness:
  "[170, - 170] \<noteq> ([] :: real list) \<and> (1 :: nat) < length [170, - 170 :: real] \<and>
   (\<exists>out. unwrap_lons real_ops [170, - 170] = Inr out \<and>
      (\<exists>k :: int. out ! 1 - [170, - 170] ! 1 = 360 * real_of_int k))"
  using unwrap_lons_mod_360 [of "[170, - 170]" 1] by simp



subsection \<open>Rounding to binary64\<close>

lemma pow2_pos: "0 < pow2 e"
  by (simp add: pow2_def)

lemma pow2_powr: "pow2 e = 2 powr real_of_int e"
  by (simp add: pow2_def powr_real_of_int field_simps)

lemma expo_eq:
  assumes "pow2 e \<le> \<bar>x\<bar>" and "\<bar>x\<bar> < pow2 (e + 1)" and "- 1022 \<le> e"
  shows "expo x = e"
proof -
  have pos: "0 < \<bar>x\<bar>"
    using assms(1) pow2_pos [of e] by linarith
  have "real_of_int e \<le> log 2 \<bar>x\<bar>"
    using assms(1) pos by (simp add: le_log_iff pow2_powr)
  moreover have "log 2 \<bar>x\<bar> < real_of_int e + 1"
    using assms(2) pos by (simp add: log_less_iff pow2_powr)
  ultimately have "\<lfloor>log 2 \<bar>x\<bar>\<rfloor> = e"
    by linarith
  then show ?thesis
    using assms(3) by (simp add: expo_def)
qed

lemma round64_eval:
  assumes "pow2 e \<le> \<bar>x\<bar>" and "\<bar>x\<bar> < pow2 (e + 1)" and "- 1022 \<le> e"
  shows "round64 x = of_int (rne (x / pow2 (e - 52))) * pow2 (e - 52)"
proof -
  have "x \<noteq> 0"
    using assms(1) pow2_pos [of e] by auto
  then show ?thesis
    using expo_eq [OF assms] by (simp add: round64_def)
qed

lemma round64_0: "round64 0 = 0"
  by (simp add: round64_def)

lemma rne_of_int: "rne (of_int n) = n"
  by (simp add: rne_def)

lemma ieee_ops_fields [simp]:
  "flit ieee_ops = fl_of" "fof_nat ieee_ops = (\<lambda>n. fl_of (real n))"
  "fadd ieee_ops = fl_add" "fsub ieee_ops = fl_sub" "fmul ieee_ops = fl_mul"
  "fdiv ieee_ops = fl_div" "fpow ieee_ops = fl_pow" "fabs ieee_ops = fl_abs"
  "fless ieee_ops = fl_less" "fdiffers ieee_ops = fl_differs"
  "msin ieee_ops = fl_fun sin" "mcos ieee_ops = fl_fun cos"
  "mradians ieee_ops = fl_radians" "mdegrees ieee_ops = fl_degrees"
  "matan2 ieee_ops = fl_atan2" "mhypot ieee_ops = fl_hypot"
  "mdomain_error ieee_ops = fl_is_inf"
  by (simp_all add: ieee_ops_def)

lemma fl_of_0 [simp]: "fl_of 0 = Fin 0"
  by (simp add: fl_of_def round64_0)

lemma fl_of_at:
  assumes "pow2 e \<le> \<bar>x\<bar>" and "\<bar>x\<bar> < pow2 (e + 1)" and "- 1022 \<le> e"
    and "y = of_int (rne (x / pow2 (e - 52))) * pow2 (e - 52)"
    and "\<bar>y\<bar> < 2 ^ 1024"
  shows "fl_of x = Fin y"
proof -
  have "round64 x = y"
    using assms(1-4) by (simp add: round64_eval)
  moreover have "\<not> (2 :: real) ^ 1024 \<le> y" "\<not> y \<le> - ((2 :: real) ^ 1024)"
    using assms(5) by linarith+
  ultimately show ?thesis
    unfolding fl_of_def Let_def by (simp only: if_False)
qed

lemma fl_val_0: "fl_of (1 / 1152921504606846976) = Fin (1 / 1152921504606846976)"
  by (rule fl_of_at [where e = "- 60"]) (simp_all add: pow2_def rne_def Let_def)

lemma fl_val_1: "fl_of (1 / 18014398509481984) = Fin (1 / 18014398509481984)"
  by (rule fl_of_at [where e = "- 54"]) (simp_all add: pow2_def rne_def Let_def)

lemma fl_val_2: "fl_of (- (1 / 9007199254740992)) = Fin (- (1 / 9007199254740992))"
  by (rule fl_of_at [where e = "- 53"]) (simp_all add: pow2_def rne_def Let_def)

lemma fl_val_3: "fl_of (3 / 18014398509481984) = Fin (3 / 18014398509481984)"
  by (rule fl_of_at [where e = "- 53"]) (simp_all add: pow2_def rne_def Let_def)

lemma fl_val_4: "fl_of (4503599627370495 / 4503599627370496) = Fin (4503599627370495 / 4503599627370496)"
  by (rule fl_of_at [where e = "- 1"]) (simp_all add: pow2_def rne_def Let_def)

lemma fl_val_5: "fl_of (18014398509481981 / 18014398509481984) = Fin (4503599627370495 / 4503599627370496)"
  by (rule fl_of_at [where e = "- 1"]) (simp_all add: pow2_def rne_def Let_def)

lemma fl_val_6: "fl_of (9007199254740991 / 9007199254740992) = Fin (9007199254740991 / 9007199254740992)"
  by (rule fl_of_at [where e = "- 1"]) (simp_all add: pow2_def rne_def Let_def)

lemma fl_val_7: "fl_of (18014398509481983 / 18014398509481984) = Fin (1)"
  by (rule fl_of_at [where e = "- 1"]) (simp_all add: pow2_def rne_def Let_def)

lemma fl_val_8: "fl_of (- (1152921504606846975 / 1152921504606846976)) = Fin (- 1)"
  by (rule fl_of_at [where e = "- 1"]) (simp_all add: pow2_def rne_def Let_def)

lemma fl_val_9: "fl_of (- 1) = Fin (- 1)"
  by (rule fl_of_at [where e = 0]) (simp_all add: pow2_def rne_def Let_def)

lemma fl_val_10: "fl_of (1) = Fin (1)"
  by (rule fl_of_at [where e = 0]) (simp_all add: pow2_def rne_def Let_def)

lemma fl_val_11: "fl_of (18014398509481985 / 18014398509481984) = Fin (1)"
  by (rule fl_of_at [where e = 0]) (simp_all add: pow2_def rne_def Let_def)

lemma fl_val_12: "fl_of (9007199254740993 / 9007199254740992) = Fin (1)"
  by (rule fl_of_at [where e = 0]) (simp_all add: pow2_def rne_def Let_def)

lemma fl_val_13: "fl_of (20) = Fin (20)"
  by (rule fl_of_at [where e = 4]) (simp_all add: pow2_def rne_def Let_def)

lemma fl_val_14: "fl_of (170) = Fin (170)"
  by (rule fl_of_at [where e = 7]) (simp_all add: pow2_def rne_def Let_def)

lemma fl_val_15: "fl_of (- 180) = Fin (- 180)"
  by (rule fl_of_at [where e = 7]) (simp_all add: pow2_def rne_def Let_def)

lemma fl_val_16: "fl_of (180) = Fin (180)"
  by (rule fl_of_at [where e = 7]) (simp_all add: pow2_def rne_def Let_def)

lemma fl_val_17: "fl_of (190) = Fin (190)"
  by (rule fl_of_at [where e = 7]) (simp_all add: pow2_def rne_def Let_def)

lemma fl_val_18: "fl_of (- 340) = Fin (- 340)"
  by (rule fl_of_at [where e = 8]) (simp_all add: pow2_def rne_def Let_def)

lemma fl_val_19: "fl_of (360) = Fin (360)"
  by (rule fl_of_at [where e = 8]) (simp_all add: pow2_def rne_def Let_def)

lemma fl_val_20: "fl_of (720) = Fin (720)"
  by (rule fl_of_at [where e = 9]) (simp_all add: pow2_def rne_def Let_def)

lemma fl_val_25: "fl_of 25 = Fin 25"
  by (rule fl_of_at [where e = 4]) (simp_all add: pow2_def rne_def Let_def)

lemmas fl_vals = fl_val_25 fl_val_0 fl_val_1 fl_val_2 fl_val_3 fl_val_4 fl_val_5 fl_val_6 fl_val_7 fl_val_8 fl_val_9 fl_val_10 fl_val_11 fl_val_12 fl_val_13 fl_val_14 fl_val_15 fl_val_16 fl_val_17 fl_val_18 fl_val_19 fl_val_20

subsection \<open>The summation loop and the value of the area\<close>

lemma for_loop_foldl:
  assumes "\<And>i s. i \<in> set js \<Longrightarrow> body i s = Inr (g s i)"
  shows "for_loop js body s = Inr (foldl g s js)"
  using assms
proof (induction js arbitrary: s)
  case Nil
  then show ?case by simp
next
  case (Cons j js)
  have "body j s = Inr (g s j)"
    by (rule Cons.prems) simp
  moreover have "for_loop js body (g s j) = Inr (foldl g (g s j) js)"
    by (rule Cons.IH) (simp add: Cons.prems)
  ultimately show ?case by simp
qed

lemma for_loop_raises:
  assumes "\<And>i s. i \<in> set js \<Longrightarrow> body i s = Inl e \<or> (\<exists>s'. body i s = Inr s')"
    and "k \<in> set js" and "\<And>s. body k s = Inl e"
  shows "for_loop js body s = Inl e"
  using assms
proof (induction js arbitrary: s)
  case Nil
  then show ?case by simp
next
  case (Cons j js)
  have step: "body j s = Inl e \<or> (\<exists>s'. body j s = Inr s')"
    by (rule Cons.prems(1)) simp
  show ?case
  proof (cases "body j s")
    case (Inl e')
    with step show ?thesis by auto
  next
    case (Inr s')
    then have "k \<noteq> j"
      using Cons.prems(3) [of s] by auto
    then have "k \<in> set js"
      using Cons.prems(2) by simp
    then have "for_loop js body s' = Inl e"
      using Cons.prems(1,3) by (intro Cons.IH) auto
    with Inr show ?thesis by simp
  qed
qed

lemma area_body_step:
  assumes "Suc i < length lats" "Suc i < length lons"
  shows "area_body A lats lons i t =
           (if mdomain_error A (lats ! i) \<or> mdomain_error A (lats ! Suc i) then Inl ValueError
            else Inr (fadd A t (fmul A (fsub A (lons ! Suc i) (lons ! i))
                                  (fadd A (msin A (lats ! i)) (msin A (lats ! Suc i))))))"
  using assms by (simp add: area_body_def py_get_nat py_get_succ py_sin_def)

lemma area_loop:
  assumes "length lons = length lats"
    and "\<forall>v \<in> set lats. \<not> mdomain_error A v"
  shows "for_loop (py_range 0 (length lats - 1)) (area_body A lats lons) (flit A 0)
           = Inr (edge_total A lats lons)"
  unfolding py_range_def edge_total_def
proof (rule for_loop_foldl)
  fix i s
  assume "i \<in> set [0..<length lats - 1]"
  then have i: "Suc i < length lats" by auto
  then have "\<not> mdomain_error A (lats ! i)" "\<not> mdomain_error A (lats ! Suc i)"
    using assms(2) by simp_all
  then show "area_body A lats lons i s =
      Inr (fadd A s (fmul A (fsub A (lons ! Suc i) (lons ! i))
                       (fadd A (msin A (lats ! i)) (msin A (lats ! Suc i)))))"
    using i assms(1) by (simp add: area_body_step)
qed

lemma area_loop_raises:
  assumes "length lons = length lats" and "2 \<le> length lats"
    and "\<exists>v \<in> set lats. mdomain_error A v"
  shows "for_loop (py_range 0 (length lats - 1)) (area_body A lats lons) t = Inl ValueError"
proof -
  from assms(3) obtain p where p: "p < length lats" "mdomain_error A (lats ! p)"
    by (auto simp: in_set_conv_nth)
  define k where "k = (if Suc p < length lats then p else p - 1)"
  have k: "Suc k < length lats" "mdomain_error A (lats ! k) \<or> mdomain_error A (lats ! Suc k)"
    using p assms(2) by (auto simp: k_def)
  show ?thesis
    unfolding py_range_def
  proof (rule for_loop_raises [where k = k])
    fix i s
    assume "i \<in> set [0..<length lats - 1]"
    then have "Suc i < length lats" by auto
    then show "area_body A lats lons i s = Inl ValueError \<or> (\<exists>s'. area_body A lats lons i s = Inr s')"
      using assms(1) by (simp add: area_body_step)
  next
    show "k \<in> set [0..<length lats - 1]"
      using k(1) by auto
  next
    fix s
    show "area_body A lats lons k s = Inl ValueError"
      using k assms(1) by (simp add: area_body_step)
  qed
qed

lemma close_ring_value:
  assumes "lats \<noteq> []" "lons \<noteq> []"
  shows "close_ring A lats lons = Inr (closed_ring A lats lons)"
  using assms by (simp add: close_ring_def ring_open_def closed_ring_def py_get_zero py_get_last)

lemma close_ring_no_lons: "lats \<noteq> [] \<Longrightarrow> close_ring A lats [] = Inl IndexError"
  by (simp add: close_ring_def ring_open_def py_get_zero py_get_last py_get_empty)

lemma closed_lengths:
  "length lats = length lons \<Longrightarrow> length (fst (closed_ring A lats lons)) = length (snd (closed_ring A lats lons))"
  by (simp add: closed_ring_def)

lemma closed_lats_set: "lats \<noteq> [] \<Longrightarrow> set (fst (closed_ring A lats lons)) = set lats"
  by (auto simp: closed_ring_def)

lemma closed_length_ge: "length lats \<le> length (fst (closed_ring A lats lons))"
  by (simp add: closed_ring_def)

lemma closed_lons_ne: "lons \<noteq> [] \<Longrightarrow> snd (closed_ring A lats lons) \<noteq> []"
  by (simp add: closed_ring_def)

lemma area_value:
  assumes len: "length lats = length lons" and n: "3 \<le> length lats"
    and ok: "\<forall>lat \<in> set lats. \<not> mdomain_error A (mradians A lat)"
  shows "spherical_polygon_area_sq_m A lats lons =
           Inr (fmul A (fmul A (flit A 0.5)
                  (fabs A (edge_total A (map (mradians A) (fst (closed_ring A lats lons)))
                                        (map (mradians A) (normalizer A (snd (closed_ring A lats lons)))))))
                (fpow A (EARTH_RADIUS A) 2))"
proof -
  obtain cl co where cc: "closed_ring A lats lons = (cl, co)"
    by (cases "closed_ring A lats lons")
  have ne: "lats \<noteq> []" "lons \<noteq> []"
    using len n by auto
  have c: "close_ring A lats lons = Inr (cl, co)"
    using ne cc by (simp add: close_ring_value)
  have co_ne: "co \<noteq> []"
    using closed_lons_ne [OF ne(2), of A lats] cc by simp
  have u: "unwrap_lons A co = Inr (normalizer A co)"
    using co_ne by (rule unwrap_lons_value)
  have l: "length (map (mradians A) (normalizer A co)) = length (map (mradians A) cl)"
    using closed_lengths [OF len, of A] cc by (simp add: length_normalizer)
  have "set cl = set lats"
    using closed_lats_set [OF ne(1), of A lons] cc by simp
  then have ok': "\<forall>v \<in> set (map (mradians A) cl). \<not> mdomain_error A v"
    using ok by auto
  have loop: "for_loop (py_range 0 (length (map (mradians A) cl) - 1))
                (area_body A (map (mradians A) cl) (map (mradians A) (normalizer A co))) (flit A 0)
              = Inr (edge_total A (map (mradians A) cl) (map (mradians A) (normalizer A co)))"
    using l ok' by (rule area_loop)
  have "\<not> length lats < 3" using n by simp
  then show ?thesis
    unfolding spherical_polygon_area_sq_m_def
    by (simp only: if_False c py_bind_Inr u Let_def loop prod.case cc fst_conv snd_conv)
qed

lemma area_value_error:
  assumes len: "length lats = length lons" and n: "3 \<le> length lats"
    and bad: "\<exists>lat \<in> set lats. mdomain_error A (mradians A lat)"
  shows "spherical_polygon_area_sq_m A lats lons = Inl ValueError"
proof -
  obtain cl co where cc: "closed_ring A lats lons = (cl, co)"
    by (cases "closed_ring A lats lons")
  have ne: "lats \<noteq> []" "lons \<noteq> []"
    using len n by auto
  have c: "close_ring A lats lons = Inr (cl, co)"
    using ne cc by (simp add: close_ring_value)
  have co_ne: "co \<noteq> []"
    using closed_lons_ne [OF ne(2), of A lats] cc by simp
  have u: "unwrap_lons A co = Inr (normalizer A co)"
    using co_ne by (rule unwrap_lons_value)
  have l: "length (map (mradians A) (normalizer A co)) = length (map (mradians A) cl)"
    using closed_lengths [OF len, of A] cc by (simp add: length_normalizer)
  have "set cl = set lats"
    using closed_lats_set [OF ne(1), of A lons] cc by simp
  then have bad': "\<exists>v \<in> set (map (mradians A) cl). mdomain_error A v"
    using bad by auto
  have "length lats \<le> length cl"
    using closed_length_ge [of lats A lons] cc by simp
  then have n': "2 \<le> length (map (mradians A) cl)"
    using n by simp
  have loop: "for_loop (py_range 0 (length (map (mradians A) cl) - 1))
                (area_body A (map (mradians A) cl) (map (mradians A) (normalizer A co))) (flit A 0)
              = Inl ValueError"
    using l n' bad' by (rule area_loop_raises)
  have "\<not> length lats < 3" using n by simp
  then show ?thesis
    unfolding spherical_polygon_area_sq_m_def
    by (simp only: if_False c py_bind_Inr u Let_def loop prod.case py_bind_Inl)
qed

lemma area_short: "length lats < 3 \<Longrightarrow> spherical_polygon_area_sq_m A lats lons = Inr (flit A 0)"
  by (simp add: spherical_polygon_area_sq_m_def)

lemma area_lons_missing:
  "3 \<le> length lats \<Longrightarrow> spherical_polygon_area_sq_m A lats [] = Inl IndexError"
proof -
  assume n: "3 \<le> length lats"
  then have "lats \<noteq> []" by auto
  then have "close_ring A lats [] = Inl IndexError"
    by (rule close_ring_no_lons)
  then show ?thesis
    using n by (simp add: spherical_polygon_area_sq_m_def)
qed

lemma area_spec_value:
  assumes comm: "\<forall>x y. fadd A x y = fadd A y x"
  shows "area_spec A lats lons =
           fmul A (fmul A (flit A 0.5)
                  (fabs A (edge_total A (map (mradians A) (fst (closed_ring A lats lons)))
                                        (map (mradians A) (normalizer A (snd (closed_ring A lats lons)))))))
                (fpow A (EARTH_RADIUS A) 2)"
proof -
  have "fadd A (msin A a) (msin A b) = fadd A (msin A b) (msin A a)" for a b
    using comm by simp
  then show ?thesis
    by (simp add: area_spec_def edge_total_def closed_ring_def EARTH_RADIUS_def Let_def)
qed

subsection \<open>The loop of centroid\_latlon\<close>

lemma centroid_body_step:
  "centroid_body A (lat_deg, lon_deg) (x, y, z) =
     (if mdomain_error A (mradians A lat_deg) \<or> mdomain_error A (mradians A lon_deg)
      then Inl ValueError
      else Inr (fadd A x (fmul A (mcos A (mradians A lat_deg)) (mcos A (mradians A lon_deg))),
                fadd A y (fmul A (mcos A (mradians A lat_deg)) (msin A (mradians A lon_deg))),
                fadd A z (msin A (mradians A lat_deg))))"
  by (simp add: centroid_body_def py_cos_def py_sin_def Let_def)

lemma foldl_triple:
  "foldl (\<lambda>(x, y, z) p. (gx x p, gy y p, gz z p)) (x, y, z) ps
     = (foldl gx x ps, foldl gy y ps, foldl gz z ps)"
  by (induction ps arbitrary: x y z) simp_all

lemma foldl_nth: "foldl g s xs = foldl (\<lambda>t i. g t (xs ! i)) s [0..<length xs]"
proof (induction xs rule: rev_induct)
  case Nil
  then show ?case by simp
next
  case (snoc x xs)
  have "foldl (\<lambda>t i. g t ((xs @ [x]) ! i)) s [0..<length xs]
          = foldl (\<lambda>t i. g t (xs ! i)) s [0..<length xs]"
    by (rule foldl_cong) (simp_all add: nth_append)
  then show ?case
    using snoc.IH by simp
qed

lemma centroid_loop:
  assumes "\<forall>p \<in> set ps. \<not> mdomain_error A (mradians A (fst p)) \<and> \<not> mdomain_error A (mradians A (snd p))"
  shows "for_loop ps (centroid_body A) (x, y, z) =
     Inr (foldl (\<lambda>t p. fadd A t (fmul A (mcos A (mradians A (fst p))) (mcos A (mradians A (snd p))))) x ps,
          foldl (\<lambda>t p. fadd A t (fmul A (mcos A (mradians A (fst p))) (msin A (mradians A (snd p))))) y ps,
          foldl (\<lambda>t p. fadd A t (msin A (mradians A (fst p)))) z ps)"
proof -
  let ?g = "\<lambda>(x, y, z) p.
      (fadd A x (fmul A (mcos A (mradians A (fst p))) (mcos A (mradians A (snd p)))),
       fadd A y (fmul A (mcos A (mradians A (fst p))) (msin A (mradians A (snd p)))),
       fadd A z (msin A (mradians A (fst p))))"
  have "for_loop ps (centroid_body A) (x, y, z) = Inr (foldl ?g (x, y, z) ps)"
  proof (rule for_loop_foldl)
    fix p s
    assume "p \<in> set ps"
    then have "\<not> mdomain_error A (mradians A (fst p))" "\<not> mdomain_error A (mradians A (snd p))"
      using assms by auto
    then show "centroid_body A p s = Inr (?g s p)"
      by (cases p; cases s) (simp add: centroid_body_step)
  qed
  then show ?thesis
    by (simp only: foldl_triple)
qed

lemma centroid_loop_raises:
  assumes "\<exists>p \<in> set ps. mdomain_error A (mradians A (fst p)) \<or> mdomain_error A (mradians A (snd p))"
  shows "for_loop ps (centroid_body A) s = Inl ValueError"
proof -
  from assms obtain k where k: "k \<in> set ps"
      "mdomain_error A (mradians A (fst k)) \<or> mdomain_error A (mradians A (snd k))"
    by auto
  show ?thesis
  proof (rule for_loop_raises [where k = k])
    fix p s
    show "centroid_body A p s = Inl ValueError \<or> (\<exists>s'. centroid_body A p s = Inr s')"
      by (cases p; cases s) (simp add: centroid_body_step)
  next
    show "k \<in> set ps" by (rule k(1))
  next
    fix s
    show "centroid_body A k s = Inl ValueError"
      using k(2) by (cases k; cases s) (simp add: centroid_body_step)
  qed
qed

lemma foldl_zip_index:
  assumes "length xs = length ys"
  shows "foldl (\<lambda>t p. g t (fst p) (snd p)) s (zip xs ys)
           = foldl (\<lambda>t i. g t (xs ! i) (ys ! i)) s [0..<length xs]"
proof -
  have "foldl (\<lambda>t p. g t (fst p) (snd p)) s (zip xs ys)
          = foldl (\<lambda>t i. g t (fst (zip xs ys ! i)) (snd (zip xs ys ! i))) s [0..<length (zip xs ys)]"
    by (rule foldl_nth)
  also have "\<dots> = foldl (\<lambda>t i. g t (xs ! i) (ys ! i)) s [0..<length xs]"
    using assms by (intro foldl_cong) simp_all
  finally show ?thesis .
qed

lemma centroid_value:
  assumes ne: "lats \<noteq> []" and len: "length lats = length lons"
    and ok1: "\<forall>lat \<in> set lats. \<not> mdomain_error A (mradians A lat)"
    and ok2: "\<forall>lon \<in> set lons. \<not> mdomain_error A (mradians A lon)"
  shows "centroid_latlon A lats lons = Inr (centroid_spec A lats lons)"
proof -
  have ok: "\<forall>p \<in> set (zip lats lons).
      \<not> mdomain_error A (mradians A (fst p)) \<and> \<not> mdomain_error A (mradians A (snd p))"
    using ok1 ok2 by (auto dest: set_zip_leftD set_zip_rightD)
  have n: "length lats \<noteq> 0"
    using ne by simp
  have x: "foldl (\<lambda>t p. fadd A t (fmul A (mcos A (mradians A (fst p))) (mcos A (mradians A (snd p)))))
             (flit A 0) (zip lats lons)
           = foldl (\<lambda>t i. fadd A t (fmul A (mcos A (mradians A (lats ! i))) (mcos A (mradians A (lons ! i)))))
             (flit A 0) [0..<length lats]"
    using len by (rule foldl_zip_index)
  have y: "foldl (\<lambda>t p. fadd A t (fmul A (mcos A (mradians A (fst p))) (msin A (mradians A (snd p)))))
             (flit A 0) (zip lats lons)
           = foldl (\<lambda>t i. fadd A t (fmul A (mcos A (mradians A (lats ! i))) (msin A (mradians A (lons ! i)))))
             (flit A 0) [0..<length lats]"
    using len by (rule foldl_zip_index)
  have z: "foldl (\<lambda>t p. fadd A t (msin A (mradians A (fst p)))) (flit A 0) (zip lats lons)
           = foldl (\<lambda>t i. fadd A t (msin A (mradians A (lats ! i)))) (flit A 0) [0..<length lats]"
    using len by (rule foldl_zip_index [where g = "\<lambda>t a b. fadd A t (msin A (mradians A a))"])
  show ?thesis
    using ne n
    by (simp add: centroid_latlon_def centroid_loop [OF ok] x y z centroid_spec_def py_div_def Let_def)
qed

lemma centroid_value_error:
  assumes ne: "lats \<noteq> []" and len: "length lats = length lons"
    and bad: "(\<exists>lat \<in> set lats. mdomain_error A (mradians A lat))
              \<or> (\<exists>lon \<in> set lons. mdomain_error A (mradians A lon))"
  shows "centroid_latlon A lats lons = Inl ValueError"
proof -
  have "\<exists>p \<in> set (zip lats lons).
      mdomain_error A (mradians A (fst p)) \<or> mdomain_error A (mradians A (snd p))"
  proof -
    from bad obtain i where i: "i < length lats"
        "mdomain_error A (mradians A (lats ! i)) \<or> mdomain_error A (mradians A (lons ! i))"
      using len by (auto simp: in_set_conv_nth)
    then have "i < length (zip lats lons)"
      using len by simp
    then have "zip lats lons ! i \<in> set (zip lats lons)"
      by (rule nth_mem)
    moreover have "fst (zip lats lons ! i) = lats ! i" "snd (zip lats lons ! i) = lons ! i"
      using i(1) len by simp_all
    ultimately show ?thesis
      using i(2) by metis
  qed
  then have "for_loop (zip lats lons) (centroid_body A) (flit A 0, flit A 0, flit A 0) = Inl ValueError"
    by (rule centroid_loop_raises)
  then show ?thesis
    using ne by (simp add: centroid_latlon_def)
qed

subsection \<open>Signs and finiteness in binary64\<close>

lemma fl_add_commute: "fl_add a b = fl_add b a"
  by (cases a; cases b) (simp_all add: add.commute)

lemma fl_add_NaN [simp]: "fl_add a NaN = NaN"
  by (cases a) simp_all

lemma fl_mul_NaN [simp]: "fl_mul a NaN = NaN"
  by (cases a) simp_all

lemma rne_cases: "rne q = \<lfloor>q\<rfloor> \<or> rne q = \<lfloor>q\<rfloor> + 1"
  by (simp add: rne_def Let_def)

lemma rne_nonneg: "0 \<le> q \<Longrightarrow> 0 \<le> rne q"
  using rne_cases [of q] by (auto simp: zero_le_floor)

lemma rne_near: "\<bar>of_int (rne q) - q\<bar> \<le> 1"
  using rne_cases [of q] by (auto simp: abs_le_iff) linarith+

lemma round64_nonneg: "0 \<le> x \<Longrightarrow> 0 \<le> round64 x"
  using pow2_pos [of "expo x - 52"] rne_nonneg [of "x / pow2 (expo x - 52)"]
  by (simp add: round64_def)

lemma fl_of_nonneg: "0 \<le> x \<Longrightarrow> \<not> fl_less (fl_of x) (Fin 0)"
  using round64_nonneg [of x] by (simp add: fl_of_def Let_def)

lemma fl_abs_nonneg: "\<not> fl_less (fl_abs a) (Fin 0)"
  by (cases a) simp_all

lemma fl_mul_nonneg:
  "\<not> fl_less a (Fin 0) \<Longrightarrow> \<not> fl_less b (Fin 0) \<Longrightarrow> \<not> fl_less (fl_mul a b) (Fin 0)"
  by (cases a; cases b) (auto simp: fl_of_nonneg signed_inf_def)

lemma fl_pow2_nonneg: "\<not> fl_less (fl_pow a 2) (Fin 0)"
  by (cases a) (simp_all add: fl_pow_def fl_of_nonneg)

lemma pow2_mono: "a \<le> b \<Longrightarrow> pow2 a \<le> pow2 b"
  by (simp add: pow2_powr)

lemma pow2_floor_log: "x \<noteq> 0 \<Longrightarrow> pow2 \<lfloor>log 2 \<bar>x\<bar>\<rfloor> \<le> \<bar>x\<bar>"
proof -
  assume "x \<noteq> 0"
  then have pos: "0 < \<bar>x\<bar>" by simp
  have "2 powr real_of_int \<lfloor>log 2 \<bar>x\<bar>\<rfloor> \<le> 2 powr log 2 \<bar>x\<bar>"
    by (simp del: powr_log_cancel)
  also have "\<dots> = \<bar>x\<bar>"
    using pos by simp
  finally show ?thesis
    by (simp add: pow2_powr)
qed

lemma ulp_bound: "x \<noteq> 0 \<Longrightarrow> pow2 (expo x - 52) \<le> \<bar>x\<bar> + 1"
proof -
  assume x: "x \<noteq> 0"
  show ?thesis
  proof (cases "- 1022 \<le> \<lfloor>log 2 \<bar>x\<bar>\<rfloor>")
    case True
    then have "expo x = \<lfloor>log 2 \<bar>x\<bar>\<rfloor>"
      by (simp add: expo_def)
    then have "pow2 (expo x - 52) \<le> pow2 \<lfloor>log 2 \<bar>x\<bar>\<rfloor>"
      by (simp add: pow2_mono)
    also have "\<dots> \<le> \<bar>x\<bar>"
      using x by (rule pow2_floor_log)
    finally show ?thesis by simp
  next
    case False
    then have "expo x = - 1022"
      by (simp add: expo_def)
    then have "pow2 (expo x - 52) \<le> pow2 0"
      by (simp add: pow2_mono)
    also have "\<dots> = 1"
      by (simp add: pow2_def)
    finally show ?thesis by simp
  qed
qed

lemma round64_bound: "\<bar>round64 x\<bar> \<le> 2 * \<bar>x\<bar> + 1"
proof (cases "x = 0")
  case True
  then show ?thesis by (simp add: round64_0)
next
  case False
  let ?u = "pow2 (expo x - 52)"
  have u: "0 < ?u" by (rule pow2_pos)
  have "round64 x - x = (of_int (rne (x / ?u)) - x / ?u) * ?u"
    using False u by (simp add: round64_def left_diff_distrib)
  then have "\<bar>round64 x - x\<bar> = \<bar>of_int (rne (x / ?u)) - x / ?u\<bar> * \<bar>?u\<bar>"
    by (simp only: abs_mult)
  also have "\<dots> = \<bar>of_int (rne (x / ?u)) - x / ?u\<bar> * ?u"
    using u by simp
  also have "\<dots> \<le> 1 * ?u"
    using rne_near [of "x / ?u"] u by (intro mult_right_mono) simp_all
  also have "\<dots> \<le> \<bar>x\<bar> + 1"
    using ulp_bound [OF False] by simp
  finally show ?thesis by linarith
qed

lemma fl_of_finite:
  assumes "\<bar>x\<bar> \<le> 2 ^ 1022"
  shows "\<exists>y. fl_of x = Fin y \<and> \<bar>y\<bar> \<le> 2 * \<bar>x\<bar> + 1"
proof -
  have b: "\<bar>round64 x\<bar> \<le> 2 * \<bar>x\<bar> + 1"
    by (rule round64_bound)
  have "2 * \<bar>x\<bar> + 1 < (2 :: real) ^ 1024"
    using assms by simp
  with b have "\<not> (2 :: real) ^ 1024 \<le> round64 x" "\<not> round64 x \<le> - ((2 :: real) ^ 1024)"
    by linarith+
  then have "fl_of x = Fin (round64 x)"
    unfolding fl_of_def Let_def by (simp only: if_False)
  with b show ?thesis by blast
qed

lemma expo_le:
  assumes "x \<noteq> 0" and "\<bar>x\<bar> < pow2 (e + 1)" and "- 1022 \<le> e"
  shows "expo x \<le> e"
proof -
  have pos: "0 < \<bar>x\<bar>" using assms(1) by simp
  have "log 2 \<bar>x\<bar> < real_of_int e + 1"
    using assms(2) pos by (simp add: log_less_iff pow2_powr)
  then have "\<lfloor>log 2 \<bar>x\<bar>\<rfloor> \<le> e"
    by linarith
  then show ?thesis
    using assms(3) by (simp add: expo_def)
qed

lemma round64_err:
  assumes "x \<noteq> 0" and "\<bar>x\<bar> < pow2 (e + 1)" and "- 1022 \<le> e"
  shows "\<bar>round64 x - x\<bar> \<le> pow2 (e - 52)"
proof -
  let ?u = "pow2 (expo x - 52)"
  have u: "0 < ?u" by (rule pow2_pos)
  have "round64 x - x = (of_int (rne (x / ?u)) - x / ?u) * ?u"
    using assms(1) u by (simp add: round64_def left_diff_distrib)
  then have "\<bar>round64 x - x\<bar> = \<bar>of_int (rne (x / ?u)) - x / ?u\<bar> * \<bar>?u\<bar>"
    by (simp only: abs_mult)
  also have "\<dots> = \<bar>of_int (rne (x / ?u)) - x / ?u\<bar> * ?u"
    using u by simp
  also have "\<dots> \<le> 1 * ?u"
    using rne_near [of "x / ?u"] u by (intro mult_right_mono) simp_all
  also have "\<dots> \<le> pow2 (e - 52)"
    using expo_le [OF assms] by (simp add: pow2_mono)
  finally show ?thesis .
qed

lemma fl_pi_value: "\<exists>p. fl_of pi = Fin p \<and> 1 < p \<and> p < 5"
proof -
  have "\<bar>round64 pi - pi\<bar> \<le> pow2 (1 - 52)"
    using pi_less_4 pi_gt_zero by (intro round64_err) (simp_all add: pow2_def)
  then have e: "\<bar>round64 pi - pi\<bar> \<le> 1 / 2"
    by (simp add: pow2_def)
  then have b: "1 < round64 pi" "round64 pi < 5"
    using pi_ge_two pi_less_4 by linarith+
  then have "\<not> (2 :: real) ^ 1024 \<le> round64 pi" "\<not> round64 pi \<le> - ((2 :: real) ^ 1024)"
    by simp_all
  then have "fl_of pi = Fin (round64 pi)"
    unfolding fl_of_def Let_def by (simp only: if_False)
  with b show ?thesis by blast
qed

lemma deg_to_rad_value: "\<exists>c. deg_to_rad = Fin c \<and> 0 < c \<and> c \<le> 1 / 32"
proof -
  obtain p where p: "fl_of pi = Fin p" "1 < p" "p < 5"
    using fl_pi_value by blast
  let ?x = "p / 180"
  have x: "?x \<noteq> 0" "\<bar>?x\<bar> < pow2 (- 6 + 1)" "1 / 180 < ?x" "?x < 1 / 36"
    using p(2,3) by (simp_all add: pow2_def)
  have "\<bar>round64 ?x - ?x\<bar> \<le> pow2 (- 6 - 52)"
    using x(1,2) by (rule round64_err) simp
  then have e: "\<bar>round64 ?x - ?x\<bar> \<le> 1 / 1000"
    by (simp add: pow2_def)
  have b: "0 < round64 ?x" "round64 ?x \<le> 1 / 32"
    using e x(3,4) by linarith+
  then have "\<not> (2 :: real) ^ 1024 \<le> round64 ?x" "\<not> round64 ?x \<le> - ((2 :: real) ^ 1024)"
    by simp_all
  then have "fl_of ?x = Fin (round64 ?x)"
    unfolding fl_of_def Let_def by (simp only: if_False)
  then have "deg_to_rad = Fin (round64 ?x)"
    using p(1) by (simp add: deg_to_rad_def)
  with b show ?thesis by blast
qed

lemma radians_special [simp]:
  "fl_radians PInf = PInf" "fl_radians NInf = NInf" "fl_radians NaN = NaN"
  "fl_radians (Fin 0) = Fin 0"
proof -
  obtain c where c: "deg_to_rad = Fin c" "0 < c"
    using deg_to_rad_value by blast
  show "fl_radians PInf = PInf" "fl_radians NInf = NInf" "fl_radians NaN = NaN"
    "fl_radians (Fin 0) = Fin 0"
    using c(2) by (simp_all add: fl_radians_def c(1) signed_inf_def)
qed

lemma radians_value:
  assumes "\<bar>x\<bar> \<le> 2 ^ 1023"
  shows "\<exists>a. fl_radians (Fin x) = Fin a \<and> \<bar>a\<bar> \<le> 2 ^ 1021"
proof -
  obtain c where c: "deg_to_rad = Fin c" "0 < c" "c \<le> 1 / 32"
    using deg_to_rad_value by blast
  have "\<bar>x * c\<bar> = \<bar>x\<bar> * c"
    using c(2) by (simp add: abs_mult)
  also have "\<dots> \<le> 2 ^ 1023 * c"
    using assms c(2) by (intro mult_right_mono) simp_all
  also have "\<dots> \<le> 2 ^ 1023 * (1 / 32)"
    using c(3) by (intro mult_left_mono) simp_all
  finally have b: "\<bar>x * c\<bar> \<le> 2 ^ 1018"
    by simp
  then have "\<bar>x * c\<bar> \<le> 2 ^ 1022"
    by simp
  then obtain a where a: "fl_of (x * c) = Fin a" "\<bar>a\<bar> \<le> 2 * \<bar>x * c\<bar> + 1"
    using fl_of_finite by blast
  then have "\<bar>a\<bar> \<le> 2 ^ 1021"
    using b by simp
  with a(1) show ?thesis
    by (simp add: fl_radians_def c(1))
qed

lemma radians_finite: "\<bar>x\<bar> \<le> 2 ^ 1022 \<Longrightarrow> \<not> fl_is_inf (fl_radians (Fin x))"
proof -
  assume "\<bar>x\<bar> \<le> 2 ^ 1022"
  then have "\<bar>x\<bar> \<le> 2 ^ 1023" by simp
  then obtain a where "fl_radians (Fin x) = Fin a"
    using radians_value by blast
  then show ?thesis
    by (simp add: fl_is_inf_def)
qed

subsection \<open>The area and the centroid: what the program returns\<close>

text \<open>
  C9: for empty input sequences, \<^verbatim>\<open>centroid_latlon\<close> returns the pair (0.0, 0.0) and
  does not fail. The code tests the latitudes only, so the longitudes are arbitrary here.
\<close>

theorem centroid_latlon_empty: "centroid_latlon A [] lons_deg = Inr (flit A 0, flit A 0)"
  by (simp add: centroid_latlon_def)

text \<open>
  C1 as stated, for every pair of equal-length sequences of at least 3 elements, fails:
  on an infinite latitude (the float of a token such as \<^verbatim>\<open>1e999\<close>) \<^verbatim>\<open>math.sin\<close>
  raises \<^verbatim>\<open>ValueError\<close> and no area is returned.
\<close>

theorem spherical_polygon_area_raises:
  "length [PInf, Fin 0, Fin 0] = length [Fin 0, Fin 0, Fin 0] \<and>
   3 \<le> length [PInf, Fin 0, Fin 0] \<and>
   spherical_polygon_area_sq_m ieee_ops [PInf, Fin 0, Fin 0] [Fin 0, Fin 0, Fin 0] = Inl ValueError"
proof -
  have "spherical_polygon_area_sq_m ieee_ops [PInf, Fin 0, Fin 0] [Fin 0, Fin 0, Fin 0] = Inl ValueError"
    by (rule area_value_error) (simp_all add: fl_is_inf_def)
  then show ?thesis by simp
qed

text \<open>
  C1, amended: for equal-length sequences of latitudes and longitudes in degrees with at
  least 3 elements, none of whose latitudes makes \<^verbatim>\<open>math.sin\<close> raise (that is, every
  latitude is finite or NaN), \<^verbatim>\<open>spherical_polygon_area_sq_m\<close> returns 0.5 times the
  absolute value of the sum, over the consecutive vertex pairs of the ring closed (when
  first and last point differ) and then unwrapped by \<^verbatim>\<open>_unwrap_lons\<close>, of
  \<open>(lon[i+1] - lon[i]) * (sin(lat[i+1]) + sin(lat[i]))\<close> in radians, times 6371008.8
  squared; every operation is the float one and the sum is taken in order from 0.0.
  Float addition is commutative, which is all the arithmetic has to satisfy.
\<close>

theorem spherical_polygon_area_formula:
  assumes "length lats_deg = length lons_deg" and "3 \<le> length lats_deg"
    and "\<forall>lat \<in> set lats_deg. \<not> mdomain_error A (mradians A lat)"
    and "\<forall>x y. fadd A x y = fadd A y x"
  shows "spherical_polygon_area_sq_m A lats_deg lons_deg = Inr (area_spec A lats_deg lons_deg)"
  using assms by (simp add: area_value area_spec_value)

text \<open>The triangle (10,20), (10,21), (11,20) in binary64.\<close>

theorem spherical_polygon_area_formula_witness:
  "spherical_polygon_area_sq_m ieee_ops [Fin 10, Fin 10, Fin 11] [Fin 20, Fin 21, Fin 20]
     = Inr (area_spec ieee_ops [Fin 10, Fin 10, Fin 11] [Fin 20, Fin 21, Fin 20])"
proof -
  have ok: "\<forall>lat \<in> set [Fin 10, Fin 10, Fin 11]. \<not> mdomain_error ieee_ops (mradians ieee_ops lat)"
    by (simp add: radians_finite)
  have comm: "\<forall>x y. fadd ieee_ops x y = fadd ieee_ops y x"
    by (simp add: fl_add_commute)
  show ?thesis
    by (rule spherical_polygon_area_formula [OF _ _ ok comm]) simp_all
qed

text \<open>
  C5, amended: for every ring of 3 or more points whose first point differs from its last
  point and compares equal to itself (is not NaN), \<^verbatim>\<open>spherical_polygon_area_sq_m\<close> of
  the ring with a copy of the first point appended is identical to its value on the
  unclosed ring, in any float arithmetic: the two calls run the same computation.
\<close>

theorem area_closing:
  assumes len: "length lats_deg = length lons_deg" and n: "3 \<le> length lats_deg"
    and opn: "fdiffers A (hd lats_deg) (last lats_deg) \<or> fdiffers A (hd lons_deg) (last lons_deg)"
    and self: "\<not> fdiffers A (hd lats_deg) (hd lats_deg)" "\<not> fdiffers A (hd lons_deg) (hd lons_deg)"
  shows "spherical_polygon_area_sq_m A (lats_deg @ [hd lats_deg]) (lons_deg @ [hd lons_deg])
           = spherical_polygon_area_sq_m A lats_deg lons_deg"
proof -
  have ne: "lats_deg \<noteq> []" "lons_deg \<noteq> []"
    using len n by auto
  have c1: "close_ring A lats_deg lons_deg = Inr (lats_deg @ [hd lats_deg], lons_deg @ [hd lons_deg])"
    using ne opn by (simp add: close_ring_value closed_ring_def)
  have "closed_ring A (lats_deg @ [hd lats_deg]) (lons_deg @ [hd lons_deg])
          = (lats_deg @ [hd lats_deg], lons_deg @ [hd lons_deg])"
    using ne self by (simp add: closed_ring_def)
  then have c2: "close_ring A (lats_deg @ [hd lats_deg]) (lons_deg @ [hd lons_deg])
          = Inr (lats_deg @ [hd lats_deg], lons_deg @ [hd lons_deg])"
    by (simp add: close_ring_value)
  show ?thesis
    using n by (simp add: spherical_polygon_area_sq_m_def c1 c2)
qed

text \<open>The open triangle (10,20), (10,21), (11,20) and the same triangle closed by hand.\<close>

theorem area_closing_witness:
  "spherical_polygon_area_sq_m ieee_ops [Fin 10, Fin 10, Fin 11, Fin 10] [Fin 20, Fin 21, Fin 20, Fin 20]
     = spherical_polygon_area_sq_m ieee_ops [Fin 10, Fin 10, Fin 11] [Fin 20, Fin 21, Fin 20]"
  using area_closing [of "[Fin 10, Fin 10, Fin 11]" "[Fin 20, Fin 21, Fin 20]" ieee_ops]
  by (simp add: fl_differs_def)

text \<open>
  C7 as stated, for every non-empty pair of equal-length sequences, fails: on an infinite
  latitude or longitude \<^verbatim>\<open>math.cos\<close> raises \<^verbatim>\<open>ValueError\<close> and no pair is
  returned.
\<close>

theorem centroid_latlon_raises:
  "[PInf] \<noteq> [] \<and> length [PInf] = length [Fin 0] \<and>
   centroid_latlon ieee_ops [PInf] [Fin 0] = Inl ValueError"
proof -
  have "centroid_latlon ieee_ops [PInf] [Fin 0] = Inl ValueError"
    by (rule centroid_value_error) (simp_all add: fl_is_inf_def)
  then show ?thesis by simp
qed

text \<open>
  C7, amended: for non-empty equal-length latitude and longitude sequences in degrees on
  which \<^verbatim>\<open>math.sin\<close> and \<^verbatim>\<open>math.cos\<close> do not raise (no infinite coordinate),
  \<^verbatim>\<open>centroid_latlon\<close> returns the pair obtained by converting every vertex to
  \<open>x = cos lat cos lon\<close>, \<open>y = cos lat sin lon\<close>, \<open>z = sin lat\<close>, averaging x, y and z
  over all vertices as given (summed in order from 0.0, divided by the number of
  vertices), and converting back as latitude = atan2(z, hypot(x, y)) and
  longitude = atan2(y, x), in degrees; every operation is the float one.
\<close>

theorem centroid_latlon_formula:
  assumes "lats_deg \<noteq> []" and "length lats_deg = length lons_deg"
    and "\<forall>lat \<in> set lats_deg. \<not> mdomain_error A (mradians A lat)"
    and "\<forall>lon \<in> set lons_deg. \<not> mdomain_error A (mradians A lon)"
  shows "centroid_latlon A lats_deg lons_deg = Inr (centroid_spec A lats_deg lons_deg)"
  using assms by (rule centroid_value)

text \<open>Three vertices in binary64: the average is taken over all of them.\<close>

theorem centroid_latlon_formula_witness:
  "centroid_latlon ieee_ops [Fin 10, Fin 10, Fin 11] [Fin 20, Fin 21, Fin 20]
     = Inr (centroid_spec ieee_ops [Fin 10, Fin 10, Fin 11] [Fin 20, Fin 21, Fin 20])"
proof -
  have ok1: "\<forall>lat \<in> set [Fin 10, Fin 10, Fin 11]. \<not> mdomain_error ieee_ops (mradians ieee_ops lat)"
    by (simp add: radians_finite)
  have ok2: "\<forall>lon \<in> set [Fin 20, Fin 21, Fin 20]. \<not> mdomain_error ieee_ops (mradians ieee_ops lon)"
    by (simp add: radians_finite)
  show ?thesis
    by (rule centroid_latlon_formula [OF _ _ ok1 ok2]) simp_all
qed

text \<open>
  C8 as stated, never failing on equal-length numeric input, fails: an infinite latitude
  makes \<^verbatim>\<open>math.sin\<close> raise \<^verbatim>\<open>ValueError\<close>.
\<close>

theorem area_raises_value_error:
  "length [Fin 0, Fin 0, NInf] = length [Fin 0, Fin 1, Fin 0] \<and>
   spherical_polygon_area_sq_m ieee_ops [Fin 0, Fin 0, NInf] [Fin 0, Fin 1, Fin 0] = Inl ValueError"
proof -
  have "spherical_polygon_area_sq_m ieee_ops [Fin 0, Fin 0, NInf] [Fin 0, Fin 1, Fin 0] = Inl ValueError"
    by (rule area_value_error) (simp_all add: fl_is_inf_def)
  then show ?thesis by simp
qed

text \<open>
  C8, amended: for equal-length latitude and longitude sequences, every list access of
  \<^verbatim>\<open>spherical_polygon_area_sq_m\<close> is in bounds; with fewer than 3 points it returns 0.0;
  with 3 or more points it raises \<^verbatim>\<open>ValueError\<close> exactly when \<^verbatim>\<open>math.sin\<close> raises
  on one of the latitudes (an infinite one), and otherwise returns a value that is never
  negative (it is non-negative or NaN). The arithmetic has to obey the sign rules of
  floats: an absolute value is never negative, nor is a product of two factors that are not
  negative, nor are the constants 0.5 and the squared radius.
\<close>

theorem area_never_fails:
  assumes len: "length lats_deg = length lons_deg"
    and abs_sign: "\<forall>x. \<not> fless A (fabs A x) (flit A 0)"
    and mul_sign: "\<forall>x y. \<not> fless A x (flit A 0) \<longrightarrow> \<not> fless A y (flit A 0)
                      \<longrightarrow> \<not> fless A (fmul A x y) (flit A 0)"
    and half_sign: "\<not> fless A (flit A 0.5) (flit A 0)"
    and radius_sign: "\<not> fless A (fpow A (EARTH_RADIUS A) 2) (flit A 0)"
  shows "(length lats_deg < 3 \<longrightarrow> spherical_polygon_area_sq_m A lats_deg lons_deg = Inr (flit A 0)) \<and>
         (3 \<le> length lats_deg \<longrightarrow>
            (if \<exists>lat \<in> set lats_deg. mdomain_error A (mradians A lat)
             then spherical_polygon_area_sq_m A lats_deg lons_deg = Inl ValueError
             else \<exists>r. spherical_polygon_area_sq_m A lats_deg lons_deg = Inr r \<and>
                      \<not> fless A r (flit A 0)))"
proof (intro conjI impI)
  assume "length lats_deg < 3"
  then show "spherical_polygon_area_sq_m A lats_deg lons_deg = Inr (flit A 0)"
    by (rule area_short)
next
  assume n: "3 \<le> length lats_deg"
  show "if \<exists>lat \<in> set lats_deg. mdomain_error A (mradians A lat)
        then spherical_polygon_area_sq_m A lats_deg lons_deg = Inl ValueError
        else \<exists>r. spherical_polygon_area_sq_m A lats_deg lons_deg = Inr r \<and> \<not> fless A r (flit A 0)"
  proof (cases "\<exists>lat \<in> set lats_deg. mdomain_error A (mradians A lat)")
    case True
    then have "spherical_polygon_area_sq_m A lats_deg lons_deg = Inl ValueError"
      using len n by (intro area_value_error)
    with True show ?thesis by simp
  next
    case False
    then have ok: "\<forall>lat \<in> set lats_deg. \<not> mdomain_error A (mradians A lat)"
      by simp
    let ?t = "edge_total A (map (mradians A) (fst (closed_ring A lats_deg lons_deg)))
                (map (mradians A) (normalizer A (snd (closed_ring A lats_deg lons_deg))))"
    let ?r = "fmul A (fmul A (flit A 0.5) (fabs A ?t)) (fpow A (EARTH_RADIUS A) 2)"
    have v: "spherical_polygon_area_sq_m A lats_deg lons_deg = Inr ?r"
      using len n ok by (rule area_value)
    have "\<not> fless A (fmul A (flit A 0.5) (fabs A ?t)) (flit A 0)"
      using mul_sign half_sign abs_sign by blast
    then have "\<not> fless A ?r (flit A 0)"
      using mul_sign radius_sign by blast
    with v False show ?thesis by auto
  qed
qed

text \<open>A triangle, a ring of two points, and a triangle with an infinite latitude, in binary64.\<close>

theorem area_never_fails_witness:
  "(\<exists>r. spherical_polygon_area_sq_m ieee_ops [Fin 10, Fin 10, Fin 11] [Fin 20, Fin 21, Fin 20] = Inr r
       \<and> \<not> fl_less r (Fin 0)) \<and>
   spherical_polygon_area_sq_m ieee_ops [Fin 10, Fin 11] [Fin 20, Fin 21] = Inr (Fin 0) \<and>
   spherical_polygon_area_sq_m ieee_ops [Fin 10, PInf, Fin 11] [Fin 20, Fin 21, Fin 20] = Inl ValueError"
proof -
  have s1: "\<forall>x. \<not> fless ieee_ops (fabs ieee_ops x) (flit ieee_ops 0)"
    by (simp add: fl_abs_nonneg)
  have s2: "\<forall>x y. \<not> fless ieee_ops x (flit ieee_ops 0) \<longrightarrow> \<not> fless ieee_ops y (flit ieee_ops 0)
              \<longrightarrow> \<not> fless ieee_ops (fmul ieee_ops x y) (flit ieee_ops 0)"
    by (simp add: fl_mul_nonneg)
  have s3: "\<not> fless ieee_ops (flit ieee_ops 0.5) (flit ieee_ops 0)"
    by (simp add: fl_of_nonneg)
  have s4: "\<not> fless ieee_ops (fpow ieee_ops (EARTH_RADIUS ieee_ops) 2) (flit ieee_ops 0)"
    by (simp add: fl_pow2_nonneg)
  note t = area_never_fails [OF _ s1 s2 s3 s4]
  have ok: "\<not> (\<exists>lat \<in> set [Fin 10, Fin 10, Fin 11]. mdomain_error ieee_ops (mradians ieee_ops lat))"
    by (simp add: radians_finite)
  have bad: "\<exists>lat \<in> set [Fin 10, PInf, Fin 11]. mdomain_error ieee_ops (mradians ieee_ops lat)"
    by (simp add: fl_is_inf_def)
  have 1: "\<exists>r. spherical_polygon_area_sq_m ieee_ops [Fin 10, Fin 10, Fin 11] [Fin 20, Fin 21, Fin 20] = Inr r
       \<and> \<not> fl_less r (Fin 0)"
    using t [of "[Fin 10, Fin 10, Fin 11]" "[Fin 20, Fin 21, Fin 20]"] ok
    by (simp del: set_simps)
  have 2: "spherical_polygon_area_sq_m ieee_ops [Fin 10, Fin 11] [Fin 20, Fin 21] = Inr (Fin 0)"
    using t [of "[Fin 10, Fin 11]" "[Fin 20, Fin 21]"] by simp
  have 3: "spherical_polygon_area_sq_m ieee_ops [Fin 10, PInf, Fin 11] [Fin 20, Fin 21, Fin 20] = Inl ValueError"
    using t [of "[Fin 10, PInf, Fin 11]" "[Fin 20, Fin 21, Fin 20]"] bad
    by (simp del: set_simps)
  from 1 2 3 show ?thesis by blast
qed

subsection \<open>The program on binary64 inputs\<close>

text \<open>
  C2 as stated fails in float arithmetic. For the longitudes 1, 0, \<open>2^-60\<close> the third
  output is 0, while the previous output plus the raw delta is \<open>2^-60\<close>: re-anchoring at
  \<open>lons[0] = 1\<close> rounds \<open>2^-60 - 1\<close> to -1. And an infinite first longitude comes back
  as NaN, so neither the first element nor a sequence of length 1 is kept.
\<close>

theorem unwrap_lons_contract_fails:
  "unwrap_lons ieee_ops [Fin 1, Fin 0, Fin (1 / 2 ^ 60)] = Inr [Fin 1, Fin 0, Fin 0] \<and>
   fl_add (Fin 0) (fl_sub (Fin (1 / 2 ^ 60)) (Fin 0)) = Fin (1 / 2 ^ 60) \<and>
   unwrap_lons ieee_ops [PInf] = Inr [NaN]"
proof -
  have 1: "unwrap_lons ieee_ops [Fin 1, Fin 0, Fin (1 / 2 ^ 60)] = Inr [Fin 1, Fin 0, Fin 0]"
    using fl_vals by (simp add: unwrap_lons_value normalizer_def wrap_delta_def fl_sub_def)
  have 2: "fl_add (Fin 0) (fl_sub (Fin (1 / 2 ^ 60)) (Fin 0)) = Fin (1 / 2 ^ 60)"
    using fl_vals by (simp add: fl_sub_def)
  have 3: "unwrap_lons ieee_ops [PInf] = Inr [NaN]"
    by (simp add: unwrap_lons_value normalizer_def fl_sub_def)
  from 1 2 3 show ?thesis by blast
qed

text \<open>The dateline crossing 170, -170, and a single longitude, in binary64.\<close>

theorem unwrap_lons_contract_witness:
  "unwrap_lons ieee_ops [Fin 170, Fin (- 170)] = Inr [Fin 170, Fin 190] \<and>
   unwrap_lons ieee_ops [Fin 25] = Inr [Fin 25]"
proof -
  let ?l = "[Fin 170, Fin (- 170)]"
  obtain out u where o: "unwrap_lons ieee_ops ?l = Inr out" "length out = length ?l"
      "length u = length ?l" "u ! 0 = ?l ! 0"
      "\<forall>i. 0 < i \<and> i < length ?l \<longrightarrow>
         u ! i = fadd ieee_ops (u ! (i - 1))
           (let d = fsub ieee_ops (?l ! i) (?l ! (i - 1))
            in if fless ieee_ops (flit ieee_ops 180) d then fsub ieee_ops d (flit ieee_ops 360)
               else if fless ieee_ops d (flit ieee_ops (- 180)) then fadd ieee_ops d (flit ieee_ops 360)
               else d)"
      "\<forall>i. i < length ?l \<longrightarrow> out ! i = fadd ieee_ops (?l ! 0) (fsub ieee_ops (u ! i) (?l ! 0))"
    using unwrap_lons_contract [of ?l ieee_ops] by auto
  have u0: "u ! 0 = Fin 170"
    using o(4) by simp
  have "u ! 1 = fadd ieee_ops (u ! 0)
           (let d = fsub ieee_ops (?l ! 1) (?l ! 0)
            in if fless ieee_ops (flit ieee_ops 180) d then fsub ieee_ops d (flit ieee_ops 360)
               else if fless ieee_ops d (flit ieee_ops (- 180)) then fadd ieee_ops d (flit ieee_ops 360)
               else d)"
    using o(5) by (simp del: fl_add.simps)
  then have u1: "u ! 1 = Fin 190"
    using fl_vals u0 by (simp add: fl_sub_def)
  have "out ! 0 = fadd ieee_ops (?l ! 0) (fsub ieee_ops (u ! 0) (?l ! 0))"
    using o(6) by simp
  then have o0: "out ! 0 = Fin 170"
    using fl_vals u0 by (simp add: fl_sub_def)
  have "out ! 1 = fadd ieee_ops (?l ! 0) (fsub ieee_ops (u ! 1) (?l ! 0))"
    using o(6) by simp
  then have o1: "out ! 1 = Fin 190"
    using fl_vals u1 by (simp add: fl_sub_def)
  have "out = [Fin 170, Fin 190]"
    using o(2) o0 o1 by (cases out; cases "tl out") (auto simp: nth_Cons')
  then have a: "unwrap_lons ieee_ops ?l = Inr [Fin 170, Fin 190]"
    using o(1) by simp
  have h: "fadd ieee_ops ([Fin 25] ! 0) (fsub ieee_ops ([Fin 25] ! 0) ([Fin 25] ! 0)) = [Fin 25] ! 0"
    using fl_vals by (simp add: fl_sub_def)
  have b: "unwrap_lons ieee_ops [Fin 25] = Inr [Fin 25]"
    using unwrap_lons_contract [of "[Fin 25]" ieee_ops] h by auto
  from a b show ?thesis by blast
qed


lemma fl_sin_0: "fl_fun sin (Fin 0) = Fin 0"
  by (simp add: fl_fun_def)

lemma area_two_point_nan:
  assumes "b = PInf \<or> b = NInf"
  shows "spherical_polygon_area_sq_m ieee_ops [Fin 0, Fin 0, Fin 0] [Fin 0, b, Fin 0] = Inr NaN"
proof -
  have ok: "\<forall>lat \<in> set [Fin 0, Fin 0, Fin 0]. \<not> mdomain_error ieee_ops (mradians ieee_ops lat)"
    by (simp add: fl_is_inf_def)
  have v: "spherical_polygon_area_sq_m ieee_ops [Fin 0, Fin 0, Fin 0] [Fin 0, b, Fin 0] =
      Inr (fmul ieee_ops (fmul ieee_ops (flit ieee_ops 0.5)
            (fabs ieee_ops (edge_total ieee_ops
               (map (mradians ieee_ops) (fst (closed_ring ieee_ops [Fin 0, Fin 0, Fin 0] [Fin 0, b, Fin 0])))
               (map (mradians ieee_ops)
                  (normalizer ieee_ops (snd (closed_ring ieee_ops [Fin 0, Fin 0, Fin 0] [Fin 0, b, Fin 0])))))))
          (fpow ieee_ops (EARTH_RADIUS ieee_ops) 2))"
    by (rule area_value [OF _ _ ok]) simp_all
  have c: "closed_ring ieee_ops [Fin 0, Fin 0, Fin 0] [Fin 0, b, Fin 0]
             = ([Fin 0, Fin 0, Fin 0], [Fin 0, b, Fin 0])"
    by (simp add: closed_ring_def fl_differs_def)
  have n: "normalizer ieee_ops [Fin 0, b, Fin 0] = [Fin 0, b, NaN]"
    using assms fl_vals by (auto simp: normalizer_def wrap_delta_def fl_sub_def)
  have t: "edge_total ieee_ops [Fin 0, Fin 0, Fin 0] [Fin 0, b, NaN] = NaN"
    using assms by (auto simp: edge_total_def fl_sub_def fl_sin_0 numeral_2_eq_2)
  have sb: "fl_radians b = b"
    using assms by auto
  show ?thesis
    by (simp add: v c n sb t)
qed




text \<open>
  C5 as stated fails on a ring of 2 points: the open ring (0, 0), (0, -infinity) has the
  area 0.0 by the length test, the ring closed by hand has 3 points and the area NaN.
\<close>

theorem area_closing_two_points:
  "fl_differs (Fin 0) NInf \<and>
   spherical_polygon_area_sq_m ieee_ops [Fin 0, Fin 0] [Fin 0, NInf] = Inr (Fin 0) \<and>
   spherical_polygon_area_sq_m ieee_ops [Fin 0, Fin 0, Fin 0] [Fin 0, NInf, Fin 0] = Inr NaN"
  by (simp add: area_two_point_nan area_short fl_differs_def)

subsection \<open>Reversal of the ring in exact real arithmetic\<close>













subsection \<open>Binary64 near the overflow threshold\<close>











lemma fl_mul_zero [simp]: "fl_mul (Fin x) (Fin 0) = Fin 0" "fl_mul (Fin 0) (Fin y) = Fin 0"
  by simp_all




lemma scaled_area_nan:
  "fl_mul (fl_mul (fl_of (1 / 2)) (fl_abs NaN)) (fl_pow (EARTH_RADIUS ieee_ops) 2) = NaN"
  by simp

lemma edge_to_zero:
  assumes "\<bar>a\<bar> \<le> 2 ^ 1021" and "\<bar>b\<bar> \<le> 2 ^ 1021"
  shows "fl_mul (fl_sub (Fin a) (Fin b)) (Fin 0) = Fin 0"
proof -
  have "\<bar>a - b\<bar> \<le> 2 ^ 1022"
    using assms by simp
  then obtain d where "fl_of (a - b) = Fin d"
    using fl_of_finite by blast
  then show ?thesis
    by (simp add: fl_sub_def)
qed




end
